theory Spec2Isabelle
  imports Complex_Main
begin

section \<open>Value-semantic type erasure: the two \<open>Shape\<close> classes\<close>

text \<open>
  The development embeds the class \<open>Shape\<close> of \<^verbatim>\<open>TypeErasure_SBO_1.cpp\<close> (the model object
  lives in a 128-byte buffer inside the \<open>Shape\<close>) and the class \<open>Shape\<close> of
  \<^verbatim>\<open>TypeErasure_2.cpp\<close> (the model object lives on the heap, owned through a
  \<open>std::unique_ptr\<close>). Both classes have the same name in the source; here the
  members of the first carry the prefix \<open>sbo_\<close> and those of the second the prefix \<open>heap_\<close>.

  Objects are identified by addresses. An object table is a list indexed by address whose
  entry is \<open>None\<close> where no live object is. New objects get the next unused address, so an
  address is never reused and a stale pointer is recognisable.
\<close>

type_synonym addr = nat

definition obj_at :: "'a option list \<Rightarrow> addr \<Rightarrow> 'a option" where
  "obj_at xs a = (if a < length xs then xs ! a else None)"

subsection \<open>\<open>Model<ShapeT, DrawStrategy, SerializationStrategy>\<close>\<close>

text \<open>
  \<^verbatim>\<open>
  ShapeT shape_;
  DrawStrategy drawer_;
  SerializationStrategy serializer_;
  \<close>
  A strategy is a callable whose call operator is invoked on a \<open>const\<close> object with the
  shape by reference to \<open>const\<close>; it is a function value here, its captured state being
  part of that value. The draw strategy returns \<open>void\<close>: \<open>'e\<close> is whatever effect it has
  (for the strategies of the source, the insertions into \<open>std::cout\<close>). The fields lose
  the trailing underscore of the source, which Isabelle does not admit in a name.
\<close>

record ('s, 'e) Model =
  shape :: 's
  drawer :: "'s \<Rightarrow> 'e"
  serializer :: "'s \<Rightarrow> string"

text \<open>\<^verbatim>\<open>void do_draw() const final { drawer_(shape_); }\<close>\<close>

definition do_draw :: "('s, 'e) Model \<Rightarrow> 'e" where
  "do_draw m = drawer m (shape m)"

text \<open>\<^verbatim>\<open>std::string do_serialize() const final { return serializer_(shape_); }\<close>\<close>

definition do_serialize :: "('s, 'e) Model \<Rightarrow> string" where
  "do_serialize m = serializer m (shape m)"

subsection \<open>The world\<close>

text \<open>
  \<open>Raw\<close> is a buffer of a live inline \<open>Shape\<close> in which no model object lives
  (\<open>valueless_by_exception\<close> in the words of the source); \<open>Object m\<close> is a buffer holding
  the live model \<open>m\<close>.
\<close>

datatype 'm buffer = Raw | Object 'm

text \<open>The member \<open>pimpl_\<close> of the heap variant, a \<open>std::unique_ptr<Concept>\<close>.\<close>

datatype unique_ptr = nullptr | Ptr addr

text \<open>
  \<^item> \<open>inline_shapes\<close>: the \<open>Shape\<close> objects of the buffer variant, each with its buffer;
  \<^item> \<open>heap_shapes\<close>: the \<open>Shape\<close> objects of the heap variant, each with its \<open>pimpl_\<close>;
  \<^item> \<open>heap\<close>: the blocks obtained from \<open>operator new\<close>, in order of allocation; a block
    is \<open>None\<close> once it has been deleted, so the list is also the log of the allocator;
  \<^item> \<open>faults\<close>: the source says nothing about which copy constructor raises or when
    \<open>operator new\<close> fails, so the environment decides: every step that can raise takes the
    next entry of this list and raises when it is \<open>True\<close>; an exhausted list means that
    nothing raises any more;
  \<^item> \<open>constructions\<close>, \<open>destructions\<close>: how many model objects have been completely
    constructed, and how many times a model's destructor has run.
\<close>

record ('s, 'e) world =
  inline_shapes :: "('s, 'e) Model buffer option list"
  heap_shapes :: "unique_ptr option list"
  heap :: "('s, 'e) Model option list"
  faults :: "bool list"
  constructions :: nat
  destructions :: nat

definition init :: "bool list \<Rightarrow> ('s, 'e) world" where
  "init fs = \<lparr>inline_shapes = [], heap_shapes = [], heap = [], faults = fs,
     constructions = 0, destructions = 0\<rparr>"

datatype exn = bad_alloc | copy_failure

datatype ub = null_dereference | dead_object

text \<open>
  How a call ends: it returns a value, or an exception leaves it, or it has undefined
  behaviour (after which there is no world to speak of), or the compiler has rejected the
  instantiation (so that there is no program).
\<close>

datatype ('a, 'w) outcome = Returns 'a 'w | Throws exn 'w | Undefined ub | Rejected string

definition next_fault :: "('s, 'e) world \<Rightarrow> bool \<times> ('s, 'e) world" where
  "next_fault w = (case faults w of [] \<Rightarrow> (False, w) | f # fs \<Rightarrow> (f, w\<lparr>faults := fs\<rparr>))"

text \<open>A call of the copy constructor of a member: the copy, unless it raises.\<close>

definition copy_ctor :: "'a \<Rightarrow> ('s, 'e) world \<Rightarrow> 'a option \<times> ('s, 'e) world" where
  "copy_ctor x w = (case next_fault w of (True, w') \<Rightarrow> (None, w') | (False, w') \<Rightarrow> (Some x, w'))"

text \<open>
  \<^verbatim>\<open>
  explicit Model( ShapeT const& shape, DrawStrategy const& drawer
                , SerializationStrategy const& serializer )
     : shape_{ shape }
     , drawer_{ drawer }
     , serializer_{ serializer }
  {}
  \<close>
  The members are copy-constructed in the order of their declaration. When one copy
  raises, the members already built are destroyed and no model object comes to life.
\<close>

definition Model_ctor ::
  "'s \<Rightarrow> ('s \<Rightarrow> 'e) \<Rightarrow> ('s \<Rightarrow> string) \<Rightarrow> ('s, 'e) world \<Rightarrow> ('s, 'e) Model option \<times> ('s, 'e) world" where
  "Model_ctor sh dr se w =
     (case copy_ctor sh w of
        (None, w1) \<Rightarrow> (None, w1)
      | (Some sh', w1) \<Rightarrow>
          (case copy_ctor dr w1 of
             (None, w2) \<Rightarrow> (None, w2)
           | (Some dr', w2) \<Rightarrow>
               (case copy_ctor se w2 of
                  (None, w3) \<Rightarrow> (None, w3)
                | (Some se', w3) \<Rightarrow>
                    (Some \<lparr>shape = sh', drawer = dr', serializer = se'\<rparr>,
                     w3\<lparr>constructions := Suc (constructions w3)\<rparr>))))"

text \<open>
  The copy constructor of \<open>Model\<close> is the implicit one: it copy-constructs the three
  members in the same order.
\<close>

definition Model_copy_ctor ::
  "('s, 'e) Model \<Rightarrow> ('s, 'e) world \<Rightarrow> ('s, 'e) Model option \<times> ('s, 'e) world" where
  "Model_copy_ctor m w = Model_ctor (shape m) (drawer m) (serializer m) w"

subsection \<open>The buffer variant (\<^verbatim>\<open>TypeErasure_SBO_1.cpp\<close>)\<close>

text \<open>
  \<^verbatim>\<open>
  static constexpr size_t buffersize = 128UL;
  static constexpr size_t alignment  =  16UL;
  \<close>
\<close>

definition buffersize :: nat where
  "buffersize = 128"

definition alignment :: nat where
  "alignment = 16"

text \<open>
  \<open>sizeof(M)\<close> and \<open>alignof(M)\<close> are fixed by the compiler for each instantiation
  \<open>M = Model<ShapeT,DrawStrategy,SerializationStrategy>\<close>; the constructor takes them as
  a parameter.
\<close>

record layout =
  sizeof_M :: nat
  alignof_M :: nat

text \<open>
  \<^verbatim>\<open>
  Concept* pimpl() noexcept
  { return std::launder( reinterpret_cast<Concept*>( buffer.data() ) ); }
  \<close>
  together with the use of the pointer it returns: every caller goes through it to the
  \<open>Concept\<close> object in the buffer, which is undefined when none lives there.
\<close>

definition sbo_pimpl :: "addr \<Rightarrow> ('s, 'e) world \<Rightarrow> ub + ('s, 'e) Model" where
  "sbo_pimpl this w =
     (case obj_at (inline_shapes w) this of
        Some (Object m) \<Rightarrow> Inr m
      | _ \<Rightarrow> Inl dead_object)"

text \<open>
  \<^verbatim>\<open>pimpl()->~Concept();\<close>
  The destructor is virtual: the model in the buffer is destroyed; the buffer remains.
\<close>

definition sbo_destroy_model :: "addr \<Rightarrow> ('s, 'e) world \<Rightarrow> (unit, ('s, 'e) world) outcome" where
  "sbo_destroy_model this w =
     (case sbo_pimpl this w of
        Inl u \<Rightarrow> Undefined u
      | Inr m \<Rightarrow>
          Returns () (w\<lparr>inline_shapes := (inline_shapes w)[this := Some Raw],
                        destructions := Suc (destructions w)\<rparr>))"

text \<open>
  \<^verbatim>\<open>void clone( Concept* memory ) const final { ::new (memory) Model(*this); }\<close>
\<close>

definition sbo_clone ::
  "('s, 'e) Model \<Rightarrow> addr \<Rightarrow> ('s, 'e) world \<Rightarrow> (unit, ('s, 'e) world) outcome" where
  "sbo_clone m memory w =
     (case Model_copy_ctor m w of
        (None, w1) \<Rightarrow> Throws copy_failure w1
      | (Some m', w1) \<Rightarrow>
          Returns () (w1\<lparr>inline_shapes := (inline_shapes w1)[memory := Some (Object m')]\<rparr>))"

text \<open>
  \<^verbatim>\<open>
  template< typename ShapeT, typename DrawStrategy, typename SerializationStrategy >
  Shape( ShapeT const& shape, DrawStrategy const& drawer, SerializationStrategy const& serializer )
  {
     using M = Model<ShapeT,DrawStrategy,SerializationStrategy>;
     static_assert( sizeof(M) <= buffersize, "Given type is too large" );
     static_assert( alignof(M) <= alignment, "Given type is overaligned" );
     M* model = ::new (pimpl()) M( shape, drawer, serializer );
     assert( static_cast<Concept*>(model) == pimpl() );
  }
  \<close>
  The new \<open>Shape\<close> takes the next address; its buffer is raw until the placement new has
  completed. When the constructor of the model raises, the \<open>Shape\<close> never comes to life.
  The \<open>assert\<close> compares two addresses inside the object just built; where a base class
  lies inside an object is left to the compiler and is not part of this model.
\<close>

definition sbo_Shape ::
  "'s \<Rightarrow> ('s \<Rightarrow> 'e) \<Rightarrow> ('s \<Rightarrow> string) \<Rightarrow> layout \<Rightarrow> ('s, 'e) world \<Rightarrow> (addr, ('s, 'e) world) outcome" where
  "sbo_Shape sh dr se M w =
     (if \<not> sizeof_M M \<le> buffersize then Rejected ''Given type is too large''
      else if \<not> alignof_M M \<le> alignment then Rejected ''Given type is overaligned''
      else
        let this = length (inline_shapes w);
            w0 = w\<lparr>inline_shapes := inline_shapes w @ [Some Raw]\<rparr>
        in case Model_ctor sh dr se w0 of
             (None, w1) \<Rightarrow>
               Throws copy_failure (w1\<lparr>inline_shapes := (inline_shapes w1)[this := None]\<rparr>)
           | (Some m, w1) \<Rightarrow>
               Returns this (w1\<lparr>inline_shapes := (inline_shapes w1)[this := Some (Object m)]\<rparr>))"

text \<open>\<^verbatim>\<open>~Shape() { pimpl()->~Concept(); }\<close>\<close>

definition sbo_dtor :: "addr \<Rightarrow> ('s, 'e) world \<Rightarrow> (unit, ('s, 'e) world) outcome" where
  "sbo_dtor this w =
     (case sbo_destroy_model this w of
        Returns _ w1 \<Rightarrow> Returns () (w1\<lparr>inline_shapes := (inline_shapes w1)[this := None]\<rparr>)
      | Throws e w1 \<Rightarrow> Throws e w1
      | Undefined u \<Rightarrow> Undefined u
      | Rejected s \<Rightarrow> Rejected s)"

text \<open>
  \<^verbatim>\<open>
  Shape( Shape const& other )
  {
     other.pimpl()->clone( pimpl() );
  }
  \<close>
\<close>

definition sbo_copy_ctor :: "addr \<Rightarrow> ('s, 'e) world \<Rightarrow> (addr, ('s, 'e) world) outcome" where
  "sbo_copy_ctor other w =
     (let this = length (inline_shapes w);
          w0 = w\<lparr>inline_shapes := inline_shapes w @ [Some Raw]\<rparr>
      in case sbo_pimpl other w0 of
           Inl u \<Rightarrow> Undefined u
         | Inr m \<Rightarrow>
             (case sbo_clone m this w0 of
                Returns _ w1 \<Rightarrow> Returns this w1
              | Throws e w1 \<Rightarrow> Throws e (w1\<lparr>inline_shapes := (inline_shapes w1)[this := None]\<rparr>)
              | Undefined u \<Rightarrow> Undefined u
              | Rejected s \<Rightarrow> Rejected s))"

text \<open>
  \<^verbatim>\<open>
  Shape& operator=( Shape const& other )
  {
     pimpl()->~Concept();
     other.pimpl()->clone( pimpl() );
     return *this;
  }
  \<close>
  The second statement reads the buffer of \<open>other\<close> in the world the first one has left.
\<close>

definition sbo_assign :: "addr \<Rightarrow> addr \<Rightarrow> ('s, 'e) world \<Rightarrow> (unit, ('s, 'e) world) outcome" where
  "sbo_assign this other w =
     (case sbo_destroy_model this w of
        Returns _ w1 \<Rightarrow>
          (case sbo_pimpl other w1 of
             Inl u \<Rightarrow> Undefined u
           | Inr m \<Rightarrow> sbo_clone m this w1)
      | Throws e w1 \<Rightarrow> Throws e w1
      | Undefined u \<Rightarrow> Undefined u
      | Rejected s \<Rightarrow> Rejected s)"

text \<open>\<^verbatim>\<open>std::string serialize() const { return pimpl()->do_serialize(); }\<close>\<close>

definition sbo_serialize :: "addr \<Rightarrow> ('s, 'e) world \<Rightarrow> ub + string" where
  "sbo_serialize this w =
     (case sbo_pimpl this w of Inl u \<Rightarrow> Inl u | Inr m \<Rightarrow> Inr (do_serialize m))"

text \<open>\<^verbatim>\<open>friend void free_draw( Shape const& shape ) { shape.pimpl()->do_draw(); }\<close>\<close>

definition sbo_free_draw :: "addr \<Rightarrow> ('s, 'e) world \<Rightarrow> ub + 'e" where
  "sbo_free_draw this w =
     (case sbo_pimpl this w of Inl u \<Rightarrow> Inl u | Inr m \<Rightarrow> Inr (do_draw m))"

subsection \<open>The heap variant (\<^verbatim>\<open>TypeErasure_2.cpp\<close>)\<close>

text \<open>Reading the member \<open>pimpl_\<close> of the \<open>Shape\<close> at \<open>this\<close>.\<close>

definition heap_pimpl :: "addr \<Rightarrow> ('s, 'e) world \<Rightarrow> ub + unique_ptr" where
  "heap_pimpl this w =
     (case obj_at (heap_shapes w) this of None \<Rightarrow> Inl dead_object | Some p \<Rightarrow> Inr p)"

text \<open>\<open>operator->\<close> of the pointer, followed by a call of a virtual member.\<close>

definition deref :: "unique_ptr \<Rightarrow> ('s, 'e) world \<Rightarrow> ub + ('s, 'e) Model" where
  "deref p w =
     (case p of
        nullptr \<Rightarrow> Inl null_dereference
      | Ptr a \<Rightarrow> (case obj_at (heap w) a of None \<Rightarrow> Inl dead_object | Some m \<Rightarrow> Inr m))"

text \<open>
  \<^verbatim>\<open>std::make_unique<Model<ShapeT,DrawStrategy,SerializationStrategy>>( shape, drawer, serializer )\<close>
  \<open>operator new\<close> may raise \<open>std::bad_alloc\<close>; when the constructor raises, the block is
  given back before the exception leaves.
\<close>

definition make_unique ::
  "'s \<Rightarrow> ('s \<Rightarrow> 'e) \<Rightarrow> ('s \<Rightarrow> string) \<Rightarrow> ('s, 'e) world \<Rightarrow> (unique_ptr, ('s, 'e) world) outcome" where
  "make_unique sh dr se w =
     (case next_fault w of
        (True, w1) \<Rightarrow> Throws bad_alloc w1
      | (False, w1) \<Rightarrow>
          (case Model_ctor sh dr se w1 of
             (None, w2) \<Rightarrow> Throws copy_failure (w2\<lparr>heap := heap w2 @ [None]\<rparr>)
           | (Some m, w2) \<Rightarrow> Returns (Ptr (length (heap w2))) (w2\<lparr>heap := heap w2 @ [Some m]\<rparr>)))"

text \<open>
  \<^verbatim>\<open>std::unique_ptr<Concept> clone() const final { return std::make_unique<Model>(*this); }\<close>
\<close>

definition heap_clone ::
  "('s, 'e) Model \<Rightarrow> ('s, 'e) world \<Rightarrow> (unique_ptr, ('s, 'e) world) outcome" where
  "heap_clone m w = make_unique (shape m) (drawer m) (serializer m) w"

text \<open>
  \<^verbatim>\<open>
  template< typename ShapeT, typename DrawStrategy, typename SerializationStrategy >
  Shape( ShapeT const& shape, DrawStrategy const& drawer, SerializationStrategy const& serializer )
     : pimpl_{ std::make_unique<Model<ShapeT,DrawStrategy,SerializationStrategy>>( shape, drawer, serializer ) }
  {}
  \<close>
\<close>

definition heap_Shape ::
  "'s \<Rightarrow> ('s \<Rightarrow> 'e) \<Rightarrow> ('s \<Rightarrow> string) \<Rightarrow> ('s, 'e) world \<Rightarrow> (addr, ('s, 'e) world) outcome" where
  "heap_Shape sh dr se w =
     (case make_unique sh dr se w of
        Returns p w1 \<Rightarrow>
          Returns (length (heap_shapes w1)) (w1\<lparr>heap_shapes := heap_shapes w1 @ [Some p]\<rparr>)
      | Throws e w1 \<Rightarrow> Throws e w1
      | Undefined u \<Rightarrow> Undefined u
      | Rejected s \<Rightarrow> Rejected s)"

text \<open>
  \<^verbatim>\<open>
  Shape( Shape const& other )
     : pimpl_{ other.pimpl_->clone() }
  {}
  \<close>
\<close>

definition heap_copy_ctor :: "addr \<Rightarrow> ('s, 'e) world \<Rightarrow> (addr, ('s, 'e) world) outcome" where
  "heap_copy_ctor other w =
     (case heap_pimpl other w of
        Inl u \<Rightarrow> Undefined u
      | Inr p \<Rightarrow>
          (case deref p w of
             Inl u \<Rightarrow> Undefined u
           | Inr m \<Rightarrow>
               (case heap_clone m w of
                  Returns q w1 \<Rightarrow>
                    Returns (length (heap_shapes w1)) (w1\<lparr>heap_shapes := heap_shapes w1 @ [Some q]\<rparr>)
                | Throws e w1 \<Rightarrow> Throws e w1
                | Undefined u \<Rightarrow> Undefined u
                | Rejected s \<Rightarrow> Rejected s)))"

text \<open>
  The destructor of a \<open>std::unique_ptr\<close>: a null pointer is left alone, any other is
  deleted, which runs the virtual destructor of the model and gives the block back.
\<close>

definition delete_ptr :: "unique_ptr \<Rightarrow> ('s, 'e) world \<Rightarrow> (unit, ('s, 'e) world) outcome" where
  "delete_ptr p w =
     (case p of
        nullptr \<Rightarrow> Returns () w
      | Ptr a \<Rightarrow>
          (case obj_at (heap w) a of
             None \<Rightarrow> Undefined dead_object
           | Some m \<Rightarrow>
               Returns () (w\<lparr>heap := (heap w)[a := None],
                             destructions := Suc (destructions w)\<rparr>)))"

text \<open>\<^verbatim>\<open>~Shape() = default;\<close>\<close>

definition heap_dtor :: "addr \<Rightarrow> ('s, 'e) world \<Rightarrow> (unit, ('s, 'e) world) outcome" where
  "heap_dtor this w =
     (case heap_pimpl this w of
        Inl u \<Rightarrow> Undefined u
      | Inr p \<Rightarrow>
          (case delete_ptr p w of
             Returns _ w1 \<Rightarrow> Returns () (w1\<lparr>heap_shapes := (heap_shapes w1)[this := None]\<rparr>)
           | Throws e w1 \<Rightarrow> Throws e w1
           | Undefined u \<Rightarrow> Undefined u
           | Rejected s \<Rightarrow> Rejected s))"

text \<open>\<^verbatim>\<open>std::swap( pimpl_, tmp.pimpl_ );\<close>\<close>

definition swap_pimpl :: "addr \<Rightarrow> addr \<Rightarrow> ('s, 'e) world \<Rightarrow> (unit, ('s, 'e) world) outcome" where
  "swap_pimpl this tmp w =
     (case heap_pimpl this w of
        Inl u \<Rightarrow> Undefined u
      | Inr p \<Rightarrow>
          (case heap_pimpl tmp w of
             Inl u \<Rightarrow> Undefined u
           | Inr q \<Rightarrow>
               Returns () (w\<lparr>heap_shapes := (heap_shapes w)[this := Some q, tmp := Some p]\<rparr>)))"

text \<open>
  \<^verbatim>\<open>
  Shape& operator=( const Shape& other )
  {
     // Copy-and-swap idiom
     Shape tmp( other );
     std::swap( pimpl_, tmp.pimpl_ );
     return *this;
  }
  \<close>
  The local \<open>tmp\<close> is destroyed when the function returns. A member function
  called on an object that is not alive is undefined from the call on; every other
  operation meets \<open>this\<close> in its first statement, this one only after \<open>tmp\<close> has been
  built, so the call itself is checked here.
\<close>

definition heap_assign :: "addr \<Rightarrow> addr \<Rightarrow> ('s, 'e) world \<Rightarrow> (unit, ('s, 'e) world) outcome" where
  "heap_assign this other w =
     (case heap_pimpl this w of
        Inl u \<Rightarrow> Undefined u
      | Inr _ \<Rightarrow>
          (case heap_copy_ctor other w of
             Returns tmp w1 \<Rightarrow>
               (case swap_pimpl this tmp w1 of
                  Returns _ w2 \<Rightarrow> heap_dtor tmp w2
                | Throws e w2 \<Rightarrow> Throws e w2
                | Undefined u \<Rightarrow> Undefined u
                | Rejected s \<Rightarrow> Rejected s)
           | Throws e w1 \<Rightarrow> Throws e w1
           | Undefined u \<Rightarrow> Undefined u
           | Rejected s \<Rightarrow> Rejected s))"

text \<open>
  \<^verbatim>\<open>Shape( Shape&& ) = default;\<close>
  The defaulted move constructor moves the member: the new pointer takes over what the
  pointer of \<open>other\<close> holds, and that one becomes null.
\<close>

definition heap_move_ctor :: "addr \<Rightarrow> ('s, 'e) world \<Rightarrow> (addr, ('s, 'e) world) outcome" where
  "heap_move_ctor other w =
     (case heap_pimpl other w of
        Inl u \<Rightarrow> Undefined u
      | Inr p \<Rightarrow>
          Returns (length (heap_shapes w))
            (w\<lparr>heap_shapes := (heap_shapes w)[other := Some nullptr] @ [Some p]\<rparr>))"

text \<open>
  \<^verbatim>\<open>Shape& operator=( Shape&& ) = default;\<close>
  The defaulted move assignment move-assigns the member, which for a \<open>std::unique_ptr\<close>
  is \<open>reset( other.release() )\<close>: the pointer of \<open>other\<close> is taken and set to null, then
  the pointer of \<open>this\<close> is replaced by it and what \<open>this\<close> held before is deleted.
\<close>

definition heap_move_assign :: "addr \<Rightarrow> addr \<Rightarrow> ('s, 'e) world \<Rightarrow> (unit, ('s, 'e) world) outcome" where
  "heap_move_assign this other w =
     (case heap_pimpl other w of
        Inl u \<Rightarrow> Undefined u
      | Inr p \<Rightarrow>
          (let w1 = w\<lparr>heap_shapes := (heap_shapes w)[other := Some nullptr]\<rparr>
           in case heap_pimpl this w1 of
                Inl u \<Rightarrow> Undefined u
              | Inr old \<Rightarrow>
                  delete_ptr old (w1\<lparr>heap_shapes := (heap_shapes w1)[this := Some p]\<rparr>)))"

text \<open>\<^verbatim>\<open>std::string serialize() const { return pimpl_->do_serialize(); }\<close>\<close>

definition heap_serialize :: "addr \<Rightarrow> ('s, 'e) world \<Rightarrow> ub + string" where
  "heap_serialize this w =
     (case heap_pimpl this w of
        Inl u \<Rightarrow> Inl u
      | Inr p \<Rightarrow> (case deref p w of Inl u \<Rightarrow> Inl u | Inr m \<Rightarrow> Inr (do_serialize m)))"

text \<open>\<^verbatim>\<open>friend void free_draw( Shape const& shape ) { shape.pimpl_->do_draw(); }\<close>\<close>

definition heap_free_draw :: "addr \<Rightarrow> ('s, 'e) world \<Rightarrow> ub + 'e" where
  "heap_free_draw this w =
     (case heap_pimpl this w of
        Inl u \<Rightarrow> Inl u
      | Inr p \<Rightarrow> (case deref p w of Inl u \<Rightarrow> Inl u | Inr m \<Rightarrow> Inr (do_draw m)))"

subsection \<open>Shapes and strategies of the source\<close>

text \<open>
  \<^verbatim>\<open>
  struct Point { double x; double y; };

  class Circle
  {
   public:
     explicit Circle( double radius ) : radius_{ radius } , center_{} {}
     double radius() const { return radius_; }
     Point  center() const { return center_; }
   private:
     double radius_;
     Point center_;
  };
  \<close>
  The box stores these numbers and hands them to the strategies; it computes nothing with
  them, so a \<open>double\<close> is an opaque number here. The members \<open>x\<close> and \<open>y\<close> of \<open>Point\<close>
  are called \<open>Point_x\<close> and \<open>Point_y\<close>, to leave the two letters free for variables.
\<close>

record Point =
  Point_x :: real
  Point_y :: real

record Circle_rep =
  radius :: real
  center :: Point

definition Circle :: "real \<Rightarrow> Circle_rep" where
  "Circle r = \<lparr>radius = r, center = \<lparr>Point_x = 0, Point_y = 0\<rparr>\<rparr>"

text \<open>
  \<^verbatim>\<open>
  enum class Color { red = 0xFF0000, green = 0x00FF00, blue = 0x0000FF };

  std::string to_string( Color color )
  {
     switch( color ) {
        case Color::red:   return "red (0xFF0000)";
        case Color::green: return "green (0x00FF00)";
        case Color::blue:  return "blue (0x0000FF)";
        default:           return "unknown";
     }
  }
  \<close>
  The \<open>default\<close> branch is for values outside the three enumerators, which the datatype
  does not have.
\<close>

datatype Color = red | green | blue

fun to_string :: "Color \<Rightarrow> string" where
  "to_string red = ''red (0xFF0000)''"
| "to_string green = ''green (0x00FF00)''"
| "to_string blue = ''blue (0x0000FF)''"

text \<open>
  What a draw strategy inserts into \<open>std::cout\<close>, one item for each \<open>operator<<\<close>; how
  the stream formats a number is the library's business.
\<close>

datatype item = Text string | Number real | Endl

text \<open>
  \<^verbatim>\<open>
  void free_draw( Circle const& circle )
  {
     std::cout << "circle: radius=" << circle.radius() << std::endl;
  }

  struct FreeDraw
  {
     template< typename T >
     void operator()( T const& shape ) const { free_draw(shape); }
  };
  \<close>
\<close>

definition free_draw :: "Circle_rep \<Rightarrow> item list" where
  "free_draw circle = [Text ''circle: radius='', Number (radius circle), Endl]"

definition FreeDraw :: "Circle_rep \<Rightarrow> item list" where
  "FreeDraw sh = free_draw sh"

text \<open>
  \<^verbatim>\<open>
  class GLDrawer
  {
   public:
     explicit GLDrawer( gl::Color color ) : color_{color} {}
     void operator()( Circle const& circle ) const
     {
        std::cout << "circle: radius=" << circle.radius()
                  << ", color = " << gl::to_string(color_) << '\n';
     }
   private:
     gl::Color color_{};
  };
  \<close>
\<close>

definition GLDrawer :: "Color \<Rightarrow> Circle_rep \<Rightarrow> item list" where
  "GLDrawer color circle =
     [Text ''circle: radius='', Number (radius circle), Text '', color = '',
      Text (to_string color), Text [CHR 0x0A]]"

text \<open>
  \<^verbatim>\<open>
  auto lambda_drawer = [color = gl::Color::red]( Circle const& circle ){
     std::cout << "circle: radius=" << circle.radius()
               << ", color = " << gl::to_string(color) << std::endl;
  };
  \<close>
  The captured colour is the parameter: it is red in \<^verbatim>\<open>TypeErasure_SBO_1.cpp\<close> and blue in
  \<^verbatim>\<open>TypeErasure_2.cpp\<close>.
\<close>

definition lambda_drawer :: "Color \<Rightarrow> Circle_rep \<Rightarrow> item list" where
  "lambda_drawer color circle =
     [Text ''circle: radius='', Number (radius circle), Text '', color = '',
      Text (to_string color), Endl]"

text \<open>
  A serialization strategy as the specification's scenario has it: a callable that names
  the kind of shape. (The \<open>FSSerializer\<close> of the source writes the bytes of a type hash and
  of the \<open>double\<close>s, which depend on the platform.)
\<close>

definition kind_serializer :: "Circle_rep \<Rightarrow> string" where
  "kind_serializer circle = ''circle''"

text \<open>A layout that fits the buffer, and one that does not.\<close>

definition small_layout :: layout where
  "small_layout = \<lparr>sizeof_M = 40, alignof_M = 8\<rparr>"

definition big_layout :: layout where
  "big_layout = \<lparr>sizeof_M = 256, alignof_M = 8\<rparr>"

subsection \<open>Derived notions\<close>

text \<open>The two conditions of the \<open>static_assert\<close>s in the constructor of the buffer variant.\<close>

definition fits :: "layout \<Rightarrow> bool" where
  "fits M = (sizeof_M M \<le> buffersize \<and> alignof_M M \<le> alignment)"

text \<open>What a heap \<open>Shape\<close> holds: its pointer, followed.\<close>

definition heap_model :: "addr \<Rightarrow> ('s, 'e) world \<Rightarrow> ub + ('s, 'e) Model" where
  "heap_model this w = (case heap_pimpl this w of Inl u \<Rightarrow> Inl u | Inr p \<Rightarrow> deref p w)"

subsection \<open>Programs over inline shapes\<close>

text \<open>
  The public operations of the buffer variant, as a client can call them (the class has no
  move operations: an rvalue is copied). A step runs one of them and forgets the value it
  returns.
\<close>

datatype ('s, 'e) sbo_op =
    Construct 's "'s \<Rightarrow> 'e" "'s \<Rightarrow> string" layout
  | Copy addr
  | Assign addr addr
  | Destroy addr
  | Serialize addr
  | Draw addr

fun sbo_step :: "('s, 'e) sbo_op \<Rightarrow> ('s, 'e) world \<Rightarrow> (unit, ('s, 'e) world) outcome" where
  "sbo_step (Construct sh dr se M) w =
     (case sbo_Shape sh dr se M w of
        Returns _ w' \<Rightarrow> Returns () w'
      | Throws e w' \<Rightarrow> Throws e w'
      | Undefined u \<Rightarrow> Undefined u
      | Rejected s \<Rightarrow> Rejected s)"
| "sbo_step (Copy other) w =
     (case sbo_copy_ctor other w of
        Returns _ w' \<Rightarrow> Returns () w'
      | Throws e w' \<Rightarrow> Throws e w'
      | Undefined u \<Rightarrow> Undefined u
      | Rejected s \<Rightarrow> Rejected s)"
| "sbo_step (Assign this other) w = sbo_assign this other w"
| "sbo_step (Destroy this) w = sbo_dtor this w"
| "sbo_step (Serialize this) w =
     (case sbo_serialize this w of Inl u \<Rightarrow> Undefined u | Inr _ \<Rightarrow> Returns () w)"
| "sbo_step (Draw this) w =
     (case sbo_free_draw this w of Inl u \<Rightarrow> Undefined u | Inr _ \<Rightarrow> Returns () w)"

text \<open>The world a call leaves behind, when there is one.\<close>

fun world_after :: "('a, 'w) outcome \<Rightarrow> 'w option" where
  "world_after (Returns _ w) = Some w"
| "world_after (Throws _ w) = Some w"
| "world_after (Undefined _) = None"
| "world_after (Rejected _) = None"

text \<open>A run in which every operation returns: the final world.\<close>

fun sbo_run :: "('s, 'e) sbo_op list \<Rightarrow> ('s, 'e) world \<Rightarrow> ('s, 'e) world option" where
  "sbo_run [] w = Some w"
| "sbo_run (op # ops) w =
     (case sbo_step op w of Returns _ w' \<Rightarrow> sbo_run ops w' | _ \<Rightarrow> None)"

text \<open>
  A run in which the caller catches every exception and goes on; it ends where an
  operation has undefined behaviour.
\<close>

fun sbo_steps :: "('s, 'e) sbo_op list \<Rightarrow> ('s, 'e) world \<Rightarrow> ('s, 'e) world option" where
  "sbo_steps [] w = Some w"
| "sbo_steps (op # ops) w =
     (case world_after (sbo_step op w) of Some w' \<Rightarrow> sbo_steps ops w' | None \<Rightarrow> None)"

text \<open>The existing \<open>Shape\<close> an operation is allowed to change: the target of an assignment
  and the object of a destructor call.\<close>

fun sbo_target :: "('s, 'e) sbo_op \<Rightarrow> addr option" where
  "sbo_target (Assign this other) = Some this"
| "sbo_target (Destroy this) = Some this"
| "sbo_target _ = None"

fun makes_box :: "('s, 'e) sbo_op \<Rightarrow> bool" where
  "makes_box (Construct sh dr se M) = True"
| "makes_box (Copy other) = True"
| "makes_box _ = False"

fun is_assignment :: "('s, 'e) sbo_op \<Rightarrow> bool" where
  "is_assignment (Assign this other) = True"
| "is_assignment _ = False"

fun is_destruction :: "('s, 'e) sbo_op \<Rightarrow> bool" where
  "is_destruction (Destroy this) = True"
| "is_destruction _ = False"

text \<open>The buffers that hold a live model.\<close>

fun holds_model :: "'m buffer option \<Rightarrow> bool" where
  "holds_model (Some (Object m)) = True"
| "holds_model _ = False"

text \<open>
  In a run whose exceptions are caught, how many of the operations of one kind return.
  A constructor that raises has built no box.
\<close>

fun returned ::
  "(('s, 'e) sbo_op \<Rightarrow> bool) \<Rightarrow> ('s, 'e) sbo_op list \<Rightarrow> ('s, 'e) world \<Rightarrow> nat" where
  "returned P [] w = 0"
| "returned P (op # ops) w =
     (case sbo_step op w of
        Returns _ w' \<Rightarrow> (if P op then 1 else 0) + returned P ops w'
      | Throws _ w' \<Rightarrow> returned P ops w'
      | _ \<Rightarrow> 0)"

text \<open>The buffers of live shapes that hold no model.\<close>

fun valueless :: "'m buffer option \<Rightarrow> bool" where
  "valueless (Some Raw) = True"
| "valueless _ = False"

text \<open>How many inline shapes hold a live model.\<close>

definition live_models :: "('s, 'e) world \<Rightarrow> nat" where
  "live_models w = length (filter holds_model (inline_shapes w))"

subsection \<open>Programs over heap shapes\<close>

text \<open>The public operations of the heap variant; a step forgets the value returned.\<close>

datatype ('s, 'e) heap_op =
    HConstruct 's "'s \<Rightarrow> 'e" "'s \<Rightarrow> string"
  | HCopy addr
  | HAssign addr addr
  | HMove addr
  | HMoveAssign addr addr
  | HDestroy addr
  | HSerialize addr
  | HDraw addr

fun heap_step :: "('s, 'e) heap_op \<Rightarrow> ('s, 'e) world \<Rightarrow> (unit, ('s, 'e) world) outcome" where
  "heap_step (HConstruct sh dr se) w =
     (case heap_Shape sh dr se w of
        Returns _ w' \<Rightarrow> Returns () w'
      | Throws e w' \<Rightarrow> Throws e w'
      | Undefined u \<Rightarrow> Undefined u
      | Rejected s \<Rightarrow> Rejected s)"
| "heap_step (HCopy other) w =
     (case heap_copy_ctor other w of
        Returns _ w' \<Rightarrow> Returns () w'
      | Throws e w' \<Rightarrow> Throws e w'
      | Undefined u \<Rightarrow> Undefined u
      | Rejected s \<Rightarrow> Rejected s)"
| "heap_step (HAssign this other) w = heap_assign this other w"
| "heap_step (HMove other) w =
     (case heap_move_ctor other w of
        Returns _ w' \<Rightarrow> Returns () w'
      | Throws e w' \<Rightarrow> Throws e w'
      | Undefined u \<Rightarrow> Undefined u
      | Rejected s \<Rightarrow> Rejected s)"
| "heap_step (HMoveAssign this other) w = heap_move_assign this other w"
| "heap_step (HDestroy this) w = heap_dtor this w"
| "heap_step (HSerialize this) w =
     (case heap_serialize this w of Inl u \<Rightarrow> Undefined u | Inr _ \<Rightarrow> Returns () w)"
| "heap_step (HDraw this) w =
     (case heap_free_draw this w of Inl u \<Rightarrow> Undefined u | Inr _ \<Rightarrow> Returns () w)"

fun heap_steps :: "('s, 'e) heap_op list \<Rightarrow> ('s, 'e) world \<Rightarrow> ('s, 'e) world option" where
  "heap_steps [] w = Some w"
| "heap_steps (op # ops) w =
     (case world_after (heap_step op w) of Some w' \<Rightarrow> heap_steps ops w' | None \<Rightarrow> None)"

text \<open>
  The existing shapes an operation is allowed to change: the target of an assignment,
  the source of a move, the object of a destructor call.
\<close>

fun heap_targets :: "('s, 'e) heap_op \<Rightarrow> addr list" where
  "heap_targets (HAssign this other) = [this]"
| "heap_targets (HMove other) = [other]"
| "heap_targets (HMoveAssign this other) = [this, other]"
| "heap_targets (HDestroy this) = [this]"
| "heap_targets _ = []"

text \<open>
  Exclusive ownership: the non-null pointers held by the live shapes are pairwise
  different and each of them points to a block in which a model lives.
\<close>

fun pointers :: "unique_ptr option list \<Rightarrow> addr list" where
  "pointers [] = []"
| "pointers (Some (Ptr p) # hs) = p # pointers hs"
| "pointers (Some nullptr # hs) = pointers hs"
| "pointers (None # hs) = pointers hs"

definition owned :: "('s, 'e) world \<Rightarrow> bool" where
  "owned w =
     (distinct (pointers (heap_shapes w)) \<and>
      list_all (\<lambda>p. obj_at (heap w) p \<noteq> None) (pointers (heap_shapes w)))"

text \<open>The first half of ownership, said about addresses instead of the list of pointers.\<close>

definition unshared :: "unique_ptr option list \<Rightarrow> bool" where
  "unshared hs =
     (\<forall>a b p. obj_at hs a = Some (Ptr p) \<and> obj_at hs b = Some (Ptr p) \<longrightarrow> a = b)"

subsection \<open>State outside the boxes\<close>

text \<open>
  A strategy may hold a pointer to an object of the program that lives outside every box.
  The \<open>int\<close> objects of the program are a list indexed by address. What a call of such
  a strategy does is a function of that memory: what it inserts into \<open>std::cout\<close> and the
  memory it leaves, or nothing where its pointer does not point to an \<open>int\<close> of the
  program.
\<close>

type_synonym memory = "int list"

type_synonym 'r action = "memory \<Rightarrow> ('r \<times> memory) option"

text \<open>
  A draw strategy that a client can pass to the constructor (the source has none that
  holds a pointer):
  \<^verbatim>\<open>
  struct CountingDrawer
  {
     int* count;
     void operator()( Circle const& circle ) const
     {
        ++*count;
        std::cout << "circle " << *count << std::endl;
     }
  };
  \<close>
  Its implicit copy constructor copies the pointer.
\<close>

definition CountingDrawer :: "addr \<Rightarrow> Circle_rep \<Rightarrow> item list action" where
  "CountingDrawer count circle mem =
     (if count < length mem
      then Some ([Text ''circle '', Number (of_int (mem ! count + 1)), Endl],
                 mem[count := mem ! count + 1])
      else None)"

text \<open>\<open>free_draw\<close> on a box, run in a program whose memory is \<open>mem\<close>.\<close>

definition perform :: "ub + 'r action \<Rightarrow> memory \<Rightarrow> ('r \<times> memory) option" where
  "perform call mem = (case call of Inl u \<Rightarrow> None | Inr act \<Rightarrow> act mem)"

text \<open>
  The other way to change what a box gives: the model it holds is changed in place (a
  strategy with \<open>mutable\<close> members does that to itself in a call); in the heap variant
  the model is the one in the block the box owns.
\<close>

definition sbo_mutate :: "addr \<Rightarrow> ('s, 'e) Model \<Rightarrow> ('s, 'e) world \<Rightarrow> ('s, 'e) world" where
  "sbo_mutate this m' w =
     (case sbo_pimpl this w of
        Inl u \<Rightarrow> w
      | Inr m \<Rightarrow> w\<lparr>inline_shapes := (inline_shapes w)[this := Some (Object m')]\<rparr>)"

definition heap_mutate :: "addr \<Rightarrow> ('s, 'e) Model \<Rightarrow> ('s, 'e) world \<Rightarrow> ('s, 'e) world" where
  "heap_mutate this m' w =
     (case heap_pimpl this w of
        Inr (Ptr p) \<Rightarrow>
          (case obj_at (heap w) p of
             Some m \<Rightarrow> w\<lparr>heap := (heap w)[p := Some m']\<rparr>
           | None \<Rightarrow> w)
      | _ \<Rightarrow> w)"

subsection \<open>Sample worlds\<close>

text \<open>
  The first and the third shape of \<open>main\<close> in \<^verbatim>\<open>TypeErasure_SBO_1.cpp\<close> (with the
  serialization strategy above), and the world in which they are the two inline shapes at
  the addresses 0 and 1.
\<close>

definition model_a :: "(Circle_rep, item list) Model" where
  "model_a = \<lparr>shape = Circle 2.3, drawer = FreeDraw, serializer = kind_serializer\<rparr>"

definition model_b :: "(Circle_rep, item list) Model" where
  "model_b = \<lparr>shape = Circle 4.1, drawer = lambda_drawer red, serializer = kind_serializer\<rparr>"

definition two_circles :: "bool list \<Rightarrow> (Circle_rep, item list) world" where
  "two_circles fs =
     \<lparr>inline_shapes = [Some (Object model_a), Some (Object model_b)], heap_shapes = [],
      heap = [], faults = fs, constructions = 2, destructions = 0\<rparr>"

definition make_two_circles :: "(Circle_rep, item list) sbo_op list" where
  "make_two_circles =
     [Construct (Circle 2.3) FreeDraw kind_serializer small_layout,
      Construct (Circle 4.1) (lambda_drawer red) kind_serializer small_layout]"

text \<open>
  Two circles are built, the second is assigned to the first, and both are destroyed.
\<close>

definition assign_and_destroy :: "(Circle_rep, item list) sbo_op list" where
  "assign_and_destroy = make_two_circles @ [Assign 0 1, Destroy 0, Destroy 1]"

text \<open>
  The constructor of a first circle raises and the exception is caught; then two circles
  are built (at the addresses 1 and 2), the second is assigned to the first, and both are
  destroyed.
\<close>

definition caught_then_assign :: "(Circle_rep, item list) sbo_op list" where
  "caught_then_assign =
     Construct (Circle 2.3) FreeDraw kind_serializer small_layout #
     make_two_circles @ [Assign 1 2, Destroy 1, Destroy 2]"

text \<open>
  The same two models held by shapes of the heap variant, so that the two variants can be
  compared on equal payloads.
\<close>

definition two_heap_circles :: "bool list \<Rightarrow> (Circle_rep, item list) world" where
  "two_heap_circles fs =
     \<lparr>inline_shapes = [], heap_shapes = [Some (Ptr 0), Some (Ptr 1)],
      heap = [Some model_a, Some model_b], faults = fs, constructions = 2, destructions = 0\<rparr>"

definition make_two_heap_circles :: "(Circle_rep, item list) heap_op list" where
  "make_two_heap_circles =
     [HConstruct (Circle 2.3) FreeDraw kind_serializer,
      HConstruct (Circle 4.1) (lambda_drawer red) kind_serializer]"

text \<open>
  A circle whose draw strategy counts in the \<open>int\<close> at address 0, and a copy of it: as two
  inline shapes and as two shapes of the heap variant.
\<close>

definition counted :: "(Circle_rep, item list action) Model" where
  "counted = \<lparr>shape = Circle 2.3, drawer = CountingDrawer 0, serializer = kind_serializer\<rparr>"

definition make_counted_pair :: "(Circle_rep, item list action) sbo_op list" where
  "make_counted_pair =
     [Construct (Circle 2.3) (CountingDrawer 0) kind_serializer small_layout, Copy 0]"

definition counted_pair :: "(Circle_rep, item list action) world" where
  "counted_pair =
     \<lparr>inline_shapes = [Some (Object counted), Some (Object counted)], heap_shapes = [],
      heap = [], faults = [], constructions = 2, destructions = 0\<rparr>"

definition make_counted_heap_pair :: "(Circle_rep, item list action) heap_op list" where
  "make_counted_heap_pair =
     [HConstruct (Circle 2.3) (CountingDrawer 0) kind_serializer, HCopy 0]"

definition counted_heap_pair :: "(Circle_rep, item list action) world" where
  "counted_heap_pair =
     \<lparr>inline_shapes = [], heap_shapes = [Some (Ptr 0), Some (Ptr 1)],
      heap = [Some counted, Some counted], faults = [], constructions = 2, destructions = 0\<rparr>"

section \<open>Properties\<close>

subsection \<open>Object tables, faults and constructors\<close>

lemma obj_at_append [simp]:
  "obj_at (xs @ [v]) a = (if a = length xs then v else obj_at xs a)"
  by (auto simp: obj_at_def nth_append)

lemma obj_at_update [simp]:
  "obj_at (xs[b := v]) a = (if a = b \<and> b < length xs then v else obj_at xs a)"
  by (auto simp: obj_at_def)

lemma obj_at_Some_less: "obj_at xs a = Some v \<Longrightarrow> a < length xs"
  by (auto simp: obj_at_def split: if_splits)

lemma next_fault_cases:
  obtains f fs where "next_fault w = (f, w\<lparr>faults := fs\<rparr>)"
proof (cases "faults w")
  case Nil
  then have "w\<lparr>faults := []\<rparr> = w" by (cases w) simp
  with Nil have "next_fault w = (False, w\<lparr>faults := []\<rparr>)" by (simp add: next_fault_def)
  then show ?thesis by (rule that)
next
  case (Cons f fs)
  then have "next_fault w = (f, w\<lparr>faults := fs\<rparr>)" by (simp add: next_fault_def)
  then show ?thesis by (rule that)
qed

lemma copy_ctor_cases:
  obtains (throws) fs where "copy_ctor v w = (None, w\<lparr>faults := fs\<rparr>)"
        | (returns) fs where "copy_ctor v w = (Some v, w\<lparr>faults := fs\<rparr>)"
proof -
  obtain f fs where nf: "next_fault w = (f, w\<lparr>faults := fs\<rparr>)" by (rule next_fault_cases)
  show ?thesis
  proof (cases f)
    case True
    with nf have "copy_ctor v w = (None, w\<lparr>faults := fs\<rparr>)" by (simp add: copy_ctor_def)
    then show ?thesis by (rule throws)
  next
    case False
    with nf have "copy_ctor v w = (Some v, w\<lparr>faults := fs\<rparr>)" by (simp add: copy_ctor_def)
    then show ?thesis by (rule returns)
  qed
qed

lemma Model_ctor_cases:
  obtains (throws) fs where "Model_ctor sh dr se w = (None, w\<lparr>faults := fs\<rparr>)"
        | (returns) fs where
            "Model_ctor sh dr se w =
               (Some \<lparr>shape = sh, drawer = dr, serializer = se\<rparr>,
                w\<lparr>faults := fs, constructions := Suc (constructions w)\<rparr>)"
proof (cases rule: copy_ctor_cases [of sh w])
  case (throws f1)
  then have "Model_ctor sh dr se w = (None, w\<lparr>faults := f1\<rparr>)" by (simp add: Model_ctor_def)
  then show ?thesis by (rule that(1))
next
  case r1: (returns f1)
  show ?thesis
  proof (cases rule: copy_ctor_cases [of dr "w\<lparr>faults := f1\<rparr>"])
    case (throws f2)
    with r1 have "Model_ctor sh dr se w = (None, w\<lparr>faults := f2\<rparr>)" by (simp add: Model_ctor_def)
    then show ?thesis by (rule that(1))
  next
    case r2: (returns f2)
    show ?thesis
    proof (cases rule: copy_ctor_cases [of se "w\<lparr>faults := f1, faults := f2\<rparr>"])
      case (throws f3)
      with r1 r2 have "Model_ctor sh dr se w = (None, w\<lparr>faults := f3\<rparr>)" by (simp add: Model_ctor_def)
      then show ?thesis by (rule that(1))
    next
      case (returns f3)
      with r1 r2 have "Model_ctor sh dr se w =
               (Some \<lparr>shape = sh, drawer = dr, serializer = se\<rparr>,
                w\<lparr>faults := f3, constructions := Suc (constructions w)\<rparr>)" by (simp add: Model_ctor_def)
      then show ?thesis by (rule that(2))
    qed
  qed
qed

lemma Model_ctor_no_fault:
  "faults w = [] \<Longrightarrow>
   Model_ctor sh dr se w =
     (Some \<lparr>shape = sh, drawer = dr, serializer = se\<rparr>, w\<lparr>constructions := Suc (constructions w)\<rparr>)"
  by (simp add: Model_ctor_def copy_ctor_def next_fault_def)


lemma sbo_Shape_cases:
  assumes "fits M"
  obtains (throws) fs where
      "sbo_Shape sh dr se M w =
         Throws copy_failure (w\<lparr>inline_shapes := inline_shapes w @ [None], faults := fs\<rparr>)"
  | (returns) fs where
      "sbo_Shape sh dr se M w =
         Returns (length (inline_shapes w))
           (w\<lparr>inline_shapes := inline_shapes w @ [Some (Object \<lparr>shape = sh, drawer = dr, serializer = se\<rparr>)],
              faults := fs, constructions := Suc (constructions w)\<rparr>)"
proof (cases rule: Model_ctor_cases [of sh dr se "w\<lparr>inline_shapes := inline_shapes w @ [Some Raw]\<rparr>"])
  case (throws fs)
  with assms have "sbo_Shape sh dr se M w =
         Throws copy_failure (w\<lparr>inline_shapes := inline_shapes w @ [None], faults := fs\<rparr>)"
    by (simp add: sbo_Shape_def fits_def Let_def)
  then show ?thesis by (rule that(1))
next
  case (returns fs)
  with assms have "sbo_Shape sh dr se M w =
         Returns (length (inline_shapes w))
           (w\<lparr>inline_shapes := inline_shapes w @ [Some (Object \<lparr>shape = sh, drawer = dr, serializer = se\<rparr>)],
              faults := fs, constructions := Suc (constructions w)\<rparr>)"
    by (simp add: sbo_Shape_def fits_def Let_def)
  then show ?thesis by (rule that(2))
qed

lemma sbo_Shape_rejected:
  "\<not> fits M \<Longrightarrow> \<exists>msg. sbo_Shape sh dr se M w = Rejected msg"
  by (auto simp: sbo_Shape_def fits_def)

lemma sbo_Shape_Returns_fits:
  "sbo_Shape sh dr se M w = Returns b w' \<Longrightarrow> fits M"
  by (auto simp: sbo_Shape_def fits_def split: if_splits)

lemma make_unique_cases:
  obtains (bad_alloc) fs where "make_unique sh dr se w = Throws bad_alloc (w\<lparr>faults := fs\<rparr>)"
  | (throws) fs where
      "make_unique sh dr se w = Throws copy_failure (w\<lparr>heap := heap w @ [None], faults := fs\<rparr>)"
  | (returns) fs where
      "make_unique sh dr se w =
         Returns (Ptr (length (heap w)))
           (w\<lparr>heap := heap w @ [Some \<lparr>shape = sh, drawer = dr, serializer = se\<rparr>],
              faults := fs, constructions := Suc (constructions w)\<rparr>)"
proof -
  obtain f f0 where nf: "next_fault w = (f, w\<lparr>faults := f0\<rparr>)" by (rule next_fault_cases)
  show ?thesis
  proof (cases f)
    case True
    with nf have "make_unique sh dr se w = Throws bad_alloc (w\<lparr>faults := f0\<rparr>)"
      by (simp add: make_unique_def)
    then show ?thesis by (rule that(1))
  next
    case False
    show ?thesis
    proof (cases rule: Model_ctor_cases [of sh dr se "w\<lparr>faults := f0\<rparr>"])
      case (throws fs)
      with nf False have "make_unique sh dr se w = Throws copy_failure (w\<lparr>heap := heap w @ [None], faults := fs\<rparr>)"
        by (simp add: make_unique_def)
      then show ?thesis by (rule that(2))
    next
      case (returns fs)
      with nf False have "make_unique sh dr se w =
         Returns (Ptr (length (heap w)))
           (w\<lparr>heap := heap w @ [Some \<lparr>shape = sh, drawer = dr, serializer = se\<rparr>],
              faults := fs, constructions := Suc (constructions w)\<rparr>)"
        by (simp add: make_unique_def)
      then show ?thesis by (rule that(3))
    qed
  qed
qed

lemma heap_Shape_cases:
  obtains (bad_alloc) fs where "heap_Shape sh dr se w = Throws bad_alloc (w\<lparr>faults := fs\<rparr>)"
  | (throws) fs where
      "heap_Shape sh dr se w = Throws copy_failure (w\<lparr>heap := heap w @ [None], faults := fs\<rparr>)"
  | (returns) fs where
      "heap_Shape sh dr se w =
         Returns (length (heap_shapes w))
           (w\<lparr>heap_shapes := heap_shapes w @ [Some (Ptr (length (heap w)))],
              heap := heap w @ [Some \<lparr>shape = sh, drawer = dr, serializer = se\<rparr>],
              faults := fs, constructions := Suc (constructions w)\<rparr>)"
proof (cases rule: make_unique_cases [of sh dr se w])
  case (bad_alloc fs)
  then have "heap_Shape sh dr se w = Throws bad_alloc (w\<lparr>faults := fs\<rparr>)"
    by (simp add: heap_Shape_def)
  then show ?thesis by (rule that(1))
next
  case (throws fs)
  then have "heap_Shape sh dr se w = Throws copy_failure (w\<lparr>heap := heap w @ [None], faults := fs\<rparr>)"
    by (simp add: heap_Shape_def)
  then show ?thesis by (rule that(2))
next
  case (returns fs)
  then have "heap_Shape sh dr se w =
         Returns (length (heap_shapes w))
           (w\<lparr>heap_shapes := heap_shapes w @ [Some (Ptr (length (heap w)))],
              heap := heap w @ [Some \<lparr>shape = sh, drawer = dr, serializer = se\<rparr>],
              faults := fs, constructions := Suc (constructions w)\<rparr>)"
    by (simp add: heap_Shape_def)
  then show ?thesis by (rule that(3))
qed

lemma sbo_observe:
  "sbo_pimpl b w = Inr m \<Longrightarrow>
   sbo_serialize b w = Inr (serializer m (shape m)) \<and> sbo_free_draw b w = Inr (drawer m (shape m))"
  by (simp add: sbo_serialize_def sbo_free_draw_def do_serialize_def do_draw_def)

lemma heap_observe:
  "heap_model b w = Inr m \<Longrightarrow>
   heap_serialize b w = Inr (serializer m (shape m)) \<and> heap_free_draw b w = Inr (drawer m (shape m))"
  by (auto simp: heap_model_def heap_serialize_def heap_free_draw_def do_serialize_def do_draw_def
      split: sum.splits)

lemma sbo_Shape_no_fault:
  "fits M \<Longrightarrow> faults w = [] \<Longrightarrow>
   sbo_Shape sh dr se M w =
     Returns (length (inline_shapes w))
       (w\<lparr>inline_shapes := inline_shapes w @ [Some (Object \<lparr>shape = sh, drawer = dr, serializer = se\<rparr>)],
          constructions := Suc (constructions w)\<rparr>)"
  by (simp add: sbo_Shape_def fits_def Let_def Model_ctor_no_fault)

lemma heap_Shape_no_fault:
  "faults w = [] \<Longrightarrow>
   heap_Shape sh dr se w =
     Returns (length (heap_shapes w))
       (w\<lparr>heap_shapes := heap_shapes w @ [Some (Ptr (length (heap w)))],
          heap := heap w @ [Some \<lparr>shape = sh, drawer = dr, serializer = se\<rparr>],
          constructions := Suc (constructions w)\<rparr>)"
  by (simp add: heap_Shape_def make_unique_def next_fault_def Model_ctor_no_fault)

lemma fits_small [simp]: "fits small_layout"
  by (simp add: fits_def small_layout_def buffersize_def alignment_def)

subsection \<open>Round trip\<close>

text \<open>
  C1. Whatever shape, draw strategy and serialization strategy a \<open>Shape\<close> of either variant
  is constructed from, the box stores exactly these three, \<open>serialize()\<close> returns exactly
  the string the serialization strategy returns on the shape, and \<open>free_draw\<close> has exactly
  the effect of the draw strategy on the shape.
\<close>

theorem round_trip_identity:
  "(sbo_Shape sh dr se M w1 = Returns b1 w1' \<longrightarrow>
      sbo_pimpl b1 w1' = Inr \<lparr>shape = sh, drawer = dr, serializer = se\<rparr> \<and>
      sbo_serialize b1 w1' = Inr (se sh) \<and> sbo_free_draw b1 w1' = Inr (dr sh)) \<and>
   (heap_Shape sh dr se w2 = Returns b2 w2' \<longrightarrow>
      heap_model b2 w2' = Inr \<lparr>shape = sh, drawer = dr, serializer = se\<rparr> \<and>
      heap_serialize b2 w2' = Inr (se sh) \<and> heap_free_draw b2 w2' = Inr (dr sh))"
proof (intro conjI impI)
  assume a: "sbo_Shape sh dr se M w1 = Returns b1 w1'"
  then have "fits M" by (rule sbo_Shape_Returns_fits)
  then show p: "sbo_pimpl b1 w1' = Inr \<lparr>shape = sh, drawer = dr, serializer = se\<rparr>"
    using a by (cases rule: sbo_Shape_cases [of M sh dr se w1]) (auto simp: sbo_pimpl_def)
  from sbo_observe [OF p] show "sbo_serialize b1 w1' = Inr (se sh)" by simp
  from sbo_observe [OF p] show "sbo_free_draw b1 w1' = Inr (dr sh)" by simp
next
  assume a: "heap_Shape sh dr se w2 = Returns b2 w2'"
  then show p: "heap_model b2 w2' = Inr \<lparr>shape = sh, drawer = dr, serializer = se\<rparr>"
    by (cases rule: heap_Shape_cases [of sh dr se w2])
       (auto simp: heap_model_def heap_pimpl_def deref_def)
  from heap_observe [OF p] show "heap_serialize b2 w2' = Inr (se sh)" by simp
  from heap_observe [OF p] show "heap_free_draw b2 w2' = Inr (dr sh)" by simp
qed

theorem round_trip_identity_witness:
  "\<exists>b1 w1' b2 w2'.
     sbo_Shape (Circle 2.3) (GLDrawer green) kind_serializer small_layout (init []) = Returns b1 w1' \<and>
     sbo_serialize b1 w1' = Inr ''circle'' \<and>
     sbo_free_draw b1 w1' = Inr (GLDrawer green (Circle 2.3)) \<and>
     heap_Shape (Circle 2.3) (GLDrawer green) kind_serializer (init []) = Returns b2 w2' \<and>
     heap_serialize b2 w2' = Inr ''circle'' \<and>
     heap_free_draw b2 w2' = Inr (GLDrawer green (Circle 2.3))"
proof -
  have f: "faults (init [] :: (Circle_rep, item list) world) = []" by (simp add: init_def)
  obtain b1 w1' where h1:
    "sbo_Shape (Circle 2.3) (GLDrawer green) kind_serializer small_layout (init []) = Returns b1 w1'"
    using sbo_Shape_no_fault [OF fits_small f] by blast
  obtain b2 w2' where h2:
    "heap_Shape (Circle 2.3) (GLDrawer green) kind_serializer (init []) = Returns b2 w2'"
    using heap_Shape_no_fault [OF f] by blast
  from round_trip_identity [of "Circle 2.3" "GLDrawer green" kind_serializer small_layout "init []" b1 w1' "init []" b2 w2'] h1 h2
  show ?thesis by (simp add: kind_serializer_def)
qed

subsection \<open>Capacity\<close>

text \<open>
  C2. A combination whose model is larger than 128 bytes or aligned more strictly than 16
  is rejected by a \<open>static_assert\<close> of the constructor of the buffer variant: there is no
  program, hence no write to any buffer. For a combination within the bounds the
  constructor is never rejected and never undefined; when it returns, the table of shapes
  has grown by exactly the new \<open>Shape\<close>, whose buffer holds the one model built from the
  arguments, one construction has been counted and the heap is untouched; when a member's
  copy raises, no model has been built; and it returns whenever no copy raises.
\<close>

theorem capacity_enforcement:
  "(128 < sizeof_M M \<or> 16 < alignof_M M \<longrightarrow>
      sbo_Shape sh dr se M w = Rejected ''Given type is too large'' \<or>
      sbo_Shape sh dr se M w = Rejected ''Given type is overaligned'') \<and>
   (sizeof_M M \<le> 128 \<and> alignof_M M \<le> 16 \<longrightarrow>
      (sbo_Shape sh dr se M w = Returns b w' \<longrightarrow>
         b = length (inline_shapes w) \<and>
         inline_shapes w' =
           inline_shapes w @ [Some (Object \<lparr>shape = sh, drawer = dr, serializer = se\<rparr>)] \<and>
         constructions w' = Suc (constructions w) \<and> destructions w' = destructions w \<and>
         heap w' = heap w) \<and>
      (sbo_Shape sh dr se M w = Throws e w' \<longrightarrow>
         obj_at (inline_shapes w') (length (inline_shapes w)) = None \<and>
         constructions w' = constructions w) \<and>
      (\<forall>u. sbo_Shape sh dr se M w \<noteq> Undefined u) \<and>
      (\<forall>msg. sbo_Shape sh dr se M w \<noteq> Rejected msg) \<and>
      (faults w = [] \<longrightarrow> (\<exists>b' w''. sbo_Shape sh dr se M w = Returns b' w'')))"
proof (intro conjI impI)
  assume "128 < sizeof_M M \<or> 16 < alignof_M M"
  then show "sbo_Shape sh dr se M w = Rejected ''Given type is too large'' \<or>
      sbo_Shape sh dr se M w = Rejected ''Given type is overaligned''"
    by (auto simp: sbo_Shape_def buffersize_def alignment_def)
next
  assume "sizeof_M M \<le> 128 \<and> alignof_M M \<le> 16"
  then have f: "fits M" by (simp add: fits_def buffersize_def alignment_def)
  {
    assume "sbo_Shape sh dr se M w = Returns b w'"
    then have *: "b = length (inline_shapes w) \<and>
         inline_shapes w' =
           inline_shapes w @ [Some (Object \<lparr>shape = sh, drawer = dr, serializer = se\<rparr>)] \<and>
         constructions w' = Suc (constructions w) \<and> destructions w' = destructions w \<and>
         heap w' = heap w"
      by (cases rule: sbo_Shape_cases [OF f, of sh dr se w]) auto
    from * show "b = length (inline_shapes w)" by simp
    from * show "inline_shapes w' =
           inline_shapes w @ [Some (Object \<lparr>shape = sh, drawer = dr, serializer = se\<rparr>)]" by simp
    from * show "constructions w' = Suc (constructions w)" by simp
    from * show "destructions w' = destructions w" by simp
    from * show "heap w' = heap w" by simp
  }
  {
    assume "sbo_Shape sh dr se M w = Throws e w'"
    then have *: "obj_at (inline_shapes w') (length (inline_shapes w)) = None \<and>
         constructions w' = constructions w"
      by (cases rule: sbo_Shape_cases [OF f, of sh dr se w]) auto
    from * show "obj_at (inline_shapes w') (length (inline_shapes w)) = None" by simp
    from * show "constructions w' = constructions w" by simp
  }
  show "\<forall>u. sbo_Shape sh dr se M w \<noteq> Undefined u"
    by (cases rule: sbo_Shape_cases [OF f, of sh dr se w]) auto
  show "\<forall>msg. sbo_Shape sh dr se M w \<noteq> Rejected msg"
    by (cases rule: sbo_Shape_cases [OF f, of sh dr se w]) auto
  {
    assume "faults w = []"
    from sbo_Shape_no_fault [OF f this]
    show "\<exists>b' w''. sbo_Shape sh dr se M w = Returns b' w''" by blast
  }
qed

theorem capacity_enforcement_witness:
  "(128 < sizeof_M big_layout \<or> 16 < alignof_M big_layout) \<and>
   sbo_Shape (Circle 2.3) FreeDraw kind_serializer big_layout (init []) =
     Rejected ''Given type is too large'' \<and>
   sizeof_M small_layout \<le> 128 \<and> alignof_M small_layout \<le> 16 \<and>
   faults (init [] :: (Circle_rep, item list) world) = [] \<and>
   (\<exists>w'. sbo_Shape (Circle 2.3) FreeDraw kind_serializer small_layout (init []) = Returns 0 w' \<and>
      inline_shapes w' =
        [Some (Object \<lparr>shape = Circle 2.3, drawer = FreeDraw, serializer = kind_serializer\<rparr>)] \<and>
      constructions w' = 1)"
proof -
  have big: "128 < sizeof_M big_layout \<or> 16 < alignof_M big_layout"
    by (simp add: big_layout_def)
  have small: "sizeof_M small_layout \<le> 128 \<and> alignof_M small_layout \<le> 16"
    by (simp add: small_layout_def)
  have nf: "faults (init [] :: (Circle_rep, item list) world) = []"
    by (simp add: init_def)
  have r: "sbo_Shape (Circle 2.3) FreeDraw kind_serializer big_layout (init []) =
     Rejected ''Given type is too large''"
    using capacity_enforcement [of big_layout "Circle 2.3" FreeDraw kind_serializer "init []"] big
    by (simp add: sbo_Shape_def big_layout_def buffersize_def)
  obtain b w' where ret:
    "sbo_Shape (Circle 2.3) FreeDraw kind_serializer small_layout (init []) = Returns b w'"
    using capacity_enforcement [of small_layout "Circle 2.3" FreeDraw kind_serializer "init []"] small nf
    by blast
  from capacity_enforcement [of small_layout "Circle 2.3" FreeDraw kind_serializer "init []" b w'] small ret
  have "b = 0 \<and> inline_shapes w' =
        [Some (Object \<lparr>shape = Circle 2.3, drawer = FreeDraw, serializer = kind_serializer\<rparr>)] \<and>
      constructions w' = 1"
    by (simp add: init_def)
  with big small nf r ret show ?thesis by blast
qed

subsection \<open>The operations of the buffer variant\<close>

lemma Model_eta [simp]:
  "\<lparr>shape = shape m, drawer = drawer m, serializer = serializer m\<rparr> = m"
  by (cases m) simp

lemma sbo_pimpl_Inr [simp]:
  "(sbo_pimpl a w = Inr m) = (obj_at (inline_shapes w) a = Some (Object m))"
  by (auto simp: sbo_pimpl_def split: option.splits buffer.splits)

lemma sbo_pimpl_Inl:
  "(sbo_pimpl a w = Inl u) = (u = dead_object \<and> (\<forall>m. obj_at (inline_shapes w) a \<noteq> Some (Object m)))"
  by (auto simp: sbo_pimpl_def split: option.splits buffer.splits)

lemma sbo_pimpl_dead:
  "\<forall>m. obj_at (inline_shapes w) a \<noteq> Some (Object m) \<Longrightarrow> sbo_pimpl a w = Inl dead_object"
  by (simp add: sbo_pimpl_Inl)

lemma sbo_destroy_model_live:
  "obj_at (inline_shapes w) this = Some (Object m) \<Longrightarrow>
   sbo_destroy_model this w =
     Returns () (w\<lparr>inline_shapes := (inline_shapes w)[this := Some Raw],
                   destructions := Suc (destructions w)\<rparr>)"
  by (simp add: sbo_destroy_model_def sbo_pimpl_def)

lemma sbo_destroy_model_dead:
  "\<forall>m. obj_at (inline_shapes w) this \<noteq> Some (Object m) \<Longrightarrow>
   sbo_destroy_model this w = Undefined dead_object"
  by (simp add: sbo_destroy_model_def sbo_pimpl_dead)

lemma sbo_clone_cases:
  obtains (throws) fs where "sbo_clone m memory w = Throws copy_failure (w\<lparr>faults := fs\<rparr>)"
  | (returns) fs where
      "sbo_clone m memory w =
         Returns () (w\<lparr>inline_shapes := (inline_shapes w)[memory := Some (Object m)],
                       faults := fs, constructions := Suc (constructions w)\<rparr>)"
proof (cases rule: Model_ctor_cases [of "shape m" "drawer m" "serializer m" w])
  case (throws fs)
  then have "sbo_clone m memory w = Throws copy_failure (w\<lparr>faults := fs\<rparr>)"
    by (simp add: sbo_clone_def Model_copy_ctor_def)
  then show ?thesis by (rule that(1))
next
  case (returns fs)
  then have "sbo_clone m memory w =
         Returns () (w\<lparr>inline_shapes := (inline_shapes w)[memory := Some (Object m)],
                       faults := fs, constructions := Suc (constructions w)\<rparr>)"
    by (simp add: sbo_clone_def Model_copy_ctor_def)
  then show ?thesis by (rule that(2))
qed

lemma sbo_assign_dead_target:
  "\<forall>m. obj_at (inline_shapes w) this \<noteq> Some (Object m) \<Longrightarrow>
   sbo_assign this other w = Undefined dead_object"
  by (simp add: sbo_assign_def sbo_destroy_model_dead)

lemma sbo_assign_live_target:
  "obj_at (inline_shapes w) this = Some (Object old) \<Longrightarrow>
   sbo_assign this other w =
     (case sbo_pimpl other (w\<lparr>inline_shapes := (inline_shapes w)[this := Some Raw],
                              destructions := Suc (destructions w)\<rparr>) of
        Inl u \<Rightarrow> Undefined u
      | Inr m \<Rightarrow> sbo_clone m this (w\<lparr>inline_shapes := (inline_shapes w)[this := Some Raw],
                              destructions := Suc (destructions w)\<rparr>))"
  by (simp add: sbo_assign_def sbo_destroy_model_live)

lemma sbo_assign_cases:
  assumes "obj_at (inline_shapes w) this = Some (Object old)"
    and "obj_at (inline_shapes w) other = Some (Object m)"
    and "this \<noteq> other"
  obtains (throws) fs where
      "sbo_assign this other w =
         Throws copy_failure (w\<lparr>inline_shapes := (inline_shapes w)[this := Some Raw],
                                 faults := fs, destructions := Suc (destructions w)\<rparr>)"
  | (returns) fs where
      "sbo_assign this other w =
         Returns () (w\<lparr>inline_shapes := (inline_shapes w)[this := Some (Object m)],
                       faults := fs, constructions := Suc (constructions w),
                       destructions := Suc (destructions w)\<rparr>)"
proof -
  let ?w1 = "w\<lparr>inline_shapes := (inline_shapes w)[this := Some Raw],
                destructions := Suc (destructions w)\<rparr>"
  from assms have src: "sbo_pimpl other ?w1 = Inr m"
    by auto
  with assms(1) have eq: "sbo_assign this other w = sbo_clone m this ?w1"
    by (simp add: sbo_assign_live_target del: sbo_pimpl_Inr)
  show ?thesis
  proof (cases rule: sbo_clone_cases [of m this ?w1])
    case (throws fs)
    with eq have "sbo_assign this other w =
         Throws copy_failure (w\<lparr>inline_shapes := (inline_shapes w)[this := Some Raw],
                                 faults := fs, destructions := Suc (destructions w)\<rparr>)"
      by simp
    then show ?thesis by (rule that(1))
  next
    case (returns fs)
    with eq have "sbo_assign this other w =
         Returns () (w\<lparr>inline_shapes := (inline_shapes w)[this := Some (Object m)],
                       faults := fs, constructions := Suc (constructions w),
                       destructions := Suc (destructions w)\<rparr>)"
      by simp
    then show ?thesis by (rule that(2))
  qed
qed

lemma sbo_assign_self:
  "sbo_assign this this w = Undefined dead_object"
proof (cases "\<exists>m. obj_at (inline_shapes w) this = Some (Object m)")
  case True
  then obtain m where m: "obj_at (inline_shapes w) this = Some (Object m)" by blast
  then have "this < length (inline_shapes w)" by (rule obj_at_Some_less)
  then have "sbo_pimpl this (w\<lparr>inline_shapes := (inline_shapes w)[this := Some Raw],
                              destructions := Suc (destructions w)\<rparr>) = Inl dead_object"
    by (simp add: sbo_pimpl_def)
  with m show ?thesis by (simp add: sbo_assign_live_target)
next
  case False
  then show ?thesis by (simp add: sbo_assign_dead_target)
qed

lemma sbo_copy_ctor_dead:
  "\<forall>m. obj_at (inline_shapes w) other \<noteq> Some (Object m) \<Longrightarrow>
   sbo_copy_ctor other w = Undefined dead_object"
  by (auto simp: sbo_copy_ctor_def Let_def sbo_pimpl_def split: option.splits buffer.splits)

lemma sbo_copy_ctor_cases:
  assumes "obj_at (inline_shapes w) other = Some (Object m)"
  obtains (throws) fs where
      "sbo_copy_ctor other w =
         Throws copy_failure (w\<lparr>inline_shapes := inline_shapes w @ [None], faults := fs\<rparr>)"
  | (returns) fs where
      "sbo_copy_ctor other w =
         Returns (length (inline_shapes w))
           (w\<lparr>inline_shapes := inline_shapes w @ [Some (Object m)],
              faults := fs, constructions := Suc (constructions w)\<rparr>)"
proof -
  let ?w0 = "w\<lparr>inline_shapes := inline_shapes w @ [Some Raw]\<rparr>"
  from assms have lt: "other < length (inline_shapes w)" by (rule obj_at_Some_less)
  with assms have src: "sbo_pimpl other ?w0 = Inr m" by simp
  show ?thesis
  proof (cases rule: sbo_clone_cases [of m "length (inline_shapes w)" ?w0])
    case (throws fs)
    with src have "sbo_copy_ctor other w =
         Throws copy_failure (w\<lparr>inline_shapes := inline_shapes w @ [None], faults := fs\<rparr>)"
      by (simp add: sbo_copy_ctor_def Let_def del: sbo_pimpl_Inr)
    then show ?thesis by (rule that(1))
  next
    case (returns fs)
    with src have "sbo_copy_ctor other w =
         Returns (length (inline_shapes w))
           (w\<lparr>inline_shapes := inline_shapes w @ [Some (Object m)],
              faults := fs, constructions := Suc (constructions w)\<rparr>)"
      by (simp add: sbo_copy_ctor_def Let_def del: sbo_pimpl_Inr)
    then show ?thesis by (rule that(2))
  qed
qed

lemma sbo_dtor_live:
  "obj_at (inline_shapes w) this = Some (Object m) \<Longrightarrow>
   sbo_dtor this w =
     Returns () (w\<lparr>inline_shapes := (inline_shapes w)[this := None],
                   destructions := Suc (destructions w)\<rparr>)"
  by (simp add: sbo_dtor_def sbo_destroy_model_live)

lemma sbo_dtor_dead:
  "\<forall>m. obj_at (inline_shapes w) this \<noteq> Some (Object m) \<Longrightarrow>
   sbo_dtor this w = Undefined dead_object"
  by (simp add: sbo_dtor_def sbo_destroy_model_dead)


lemma sbo_assign_dead_source:
  assumes "\<forall>m. obj_at (inline_shapes w) other \<noteq> Some (Object m)"
  shows "\<exists>u. sbo_assign this other w = Undefined u"
proof (cases "\<exists>old. obj_at (inline_shapes w) this = Some (Object old)")
  case True
  then obtain old where old: "obj_at (inline_shapes w) this = Some (Object old)" by blast
  from assms have "sbo_pimpl other (w\<lparr>inline_shapes := (inline_shapes w)[this := Some Raw],
                              destructions := Suc (destructions w)\<rparr>) = Inl dead_object"
    by (intro sbo_pimpl_dead) simp
  with old show ?thesis by (simp add: sbo_assign_live_target)
next
  case False
  then show ?thesis by (simp add: sbo_assign_dead_target)
qed

lemma valueless_only_by_failed_assignment:
  assumes "world_after (sbo_step op w) = Some w'"
    and "obj_at (inline_shapes w') a = Some Raw"
    and "obj_at (inline_shapes w) a \<noteq> Some Raw"
  shows "\<exists>other e. op = Assign a other \<and> sbo_step op w = Throws e w'"
proof (cases op)
  case (Construct sh dr se M)
  show ?thesis
  proof (cases "fits M")
    case True
    then show ?thesis using assms Construct
      by (cases rule: sbo_Shape_cases [of M sh dr se w]) (auto split: if_splits)
  next
    case False
    from sbo_Shape_rejected [OF this, of sh dr se w]
    obtain msg where "sbo_Shape sh dr se M w = Rejected msg" by blast
    with assms Construct show ?thesis by simp
  qed
next
  case (Copy other)
  show ?thesis
  proof (cases "\<exists>m. obj_at (inline_shapes w) other = Some (Object m)")
    case True
    then obtain m where "obj_at (inline_shapes w) other = Some (Object m)" by blast
    then show ?thesis using assms Copy
      by (cases rule: sbo_copy_ctor_cases [of w other m]) (auto split: if_splits)
  next
    case False
    then have "sbo_copy_ctor other w = Undefined dead_object" by (simp add: sbo_copy_ctor_dead)
    with assms Copy show ?thesis by simp
  qed
next
  case (Assign this other)
  show ?thesis
  proof (cases "\<exists>old. obj_at (inline_shapes w) this = Some (Object old)")
    case True
    then obtain old where old: "obj_at (inline_shapes w) this = Some (Object old)" by blast
    show ?thesis
    proof (cases "\<exists>m. obj_at (inline_shapes w) other = Some (Object m)")
      case True
      then obtain m where m: "obj_at (inline_shapes w) other = Some (Object m)" by blast
      show ?thesis
      proof (cases "this = other")
        case True
        with assms Assign show ?thesis by (simp add: sbo_assign_self)
      next
        case False
        from old m False show ?thesis using assms Assign
          by (cases rule: sbo_assign_cases [of w this old other m]) (auto split: if_splits)
      qed
    next
      case False
      then have "\<forall>m. obj_at (inline_shapes w) other \<noteq> Some (Object m)" by simp
      from sbo_assign_dead_source [OF this, of this]
      obtain u where "sbo_assign this other w = Undefined u" by blast
      with assms Assign show ?thesis by simp
    qed
  next
    case False
    then have "sbo_assign this other w = Undefined dead_object"
      by (simp add: sbo_assign_dead_target)
    with assms Assign show ?thesis by simp
  qed
next
  case (Destroy this)
  show ?thesis
  proof (cases "\<exists>m. obj_at (inline_shapes w) this = Some (Object m)")
    case True
    then obtain m where "obj_at (inline_shapes w) this = Some (Object m)" by blast
    then have "sbo_dtor this w =
     Returns () (w\<lparr>inline_shapes := (inline_shapes w)[this := None],
                   destructions := Suc (destructions w)\<rparr>)" by (rule sbo_dtor_live)
    with assms Destroy show ?thesis by (auto split: if_splits)
  next
    case False
    then have "sbo_dtor this w = Undefined dead_object" by (simp add: sbo_dtor_dead)
    with assms Destroy show ?thesis by simp
  qed
next
  case (Serialize this)
  with assms show ?thesis by (auto split: sum.splits)
next
  case (Draw this)
  with assms show ?thesis by (auto split: sum.splits)
qed

lemma two_circles_reachable:
  "sbo_run make_two_circles (init (replicate 6 False @ fs)) = Some (two_circles fs)"
  by (simp add: make_two_circles_def sbo_Shape_def Let_def Model_ctor_def copy_ctor_def
      next_fault_def init_def two_circles_def model_a_def model_b_def small_layout_def
      buffersize_def alignment_def numeral_eq_Suc)

lemma two_circles_at [simp]:
  "obj_at (inline_shapes (two_circles fs)) 0 = Some (Object model_a)"
  "obj_at (inline_shapes (two_circles fs)) (Suc 0) = Some (Object model_b)"
  by (simp_all add: two_circles_def obj_at_def)

lemma failed_assign:
  "sbo_assign 0 (Suc 0) (two_circles [True]) =
     Throws copy_failure
       ((two_circles [])\<lparr>inline_shapes := [Some Raw, Some (Object model_b)], destructions := 1\<rparr>)"
  by (simp add: sbo_assign_def sbo_destroy_model_def sbo_pimpl_def sbo_clone_def
      Model_copy_ctor_def Model_ctor_def copy_ctor_def next_fault_def two_circles_def obj_at_def)


subsection \<open>Copy assignment of the buffer variant\<close>

text \<open>
  C3. Copy assignment of the buffer variant between two distinct shapes that hold a model
  first destroys the model of the target in place, which leaves the buffer of the target
  raw, and then clones the model of the source into that buffer: the assignment is the
  clone run in the world the destruction has left. It is never undefined; when no copy
  raises it returns, and whenever it returns, the target holds the model of the source (no
  other buffer has changed), gives the results the source gave, and one destruction and
  one construction have been counted. The only exception it can end by is the one a
  member's copy raises; then the target is left without a model (it does not hold its
  previous value, and \<open>serialize()\<close> on it has no live object to reach) although the
  destructor has run. Moreover, whenever an operation of the class leaves a world in
  which a buffer is raw that was not raw before, the operation was a copy assignment to
  that shape and it ended by an exception.
\<close>

theorem sbo_assignment_order_and_failure:
  "(obj_at (inline_shapes w) this = Some (Object old) \<and>
    obj_at (inline_shapes w) other = Some (Object m) \<and> this \<noteq> other \<longrightarrow>
      (\<exists>w1. sbo_destroy_model this w = Returns () w1 \<and>
         obj_at (inline_shapes w1) this = Some Raw \<and>
         destructions w1 = Suc (destructions w) \<and> constructions w1 = constructions w \<and>
         sbo_assign this other w = sbo_clone m this w1 \<and>
         (\<forall>e w'. sbo_clone m this w1 = Throws e w' \<longrightarrow>
            obj_at (inline_shapes w') this = Some Raw \<and>
            sbo_serialize this w' = Inl dead_object \<and>
            destructions w' = Suc (destructions w) \<and> constructions w' = constructions w) \<and>
         (\<forall>w'. sbo_clone m this w1 = Returns () w' \<longrightarrow>
            obj_at (inline_shapes w') this = Some (Object m)))) \<and>
   (world_after (sbo_step op w) = Some w' \<and> obj_at (inline_shapes w') a = Some Raw \<and>
    obj_at (inline_shapes w) a \<noteq> Some Raw \<longrightarrow>
      (\<exists>src e. op = Assign a src \<and> sbo_step op w = Throws e w')) \<and>
   (obj_at (inline_shapes w) this = Some (Object old) \<and>
    obj_at (inline_shapes w) other = Some (Object m) \<and> this \<noteq> other \<longrightarrow>
      (\<forall>v. sbo_assign this other w = Returns () v \<longrightarrow>
         inline_shapes v = (inline_shapes w)[this := Some (Object m)] \<and>
         obj_at (inline_shapes v) this = Some (Object m) \<and>
         obj_at (inline_shapes v) other = Some (Object m) \<and>
         sbo_serialize this v = sbo_serialize other w \<and>
         sbo_free_draw this v = sbo_free_draw other w \<and>
         constructions v = Suc (constructions w) \<and>
         destructions v = Suc (destructions w)) \<and>
      (\<forall>u. sbo_assign this other w \<noteq> Undefined u) \<and>
      (\<forall>s. sbo_assign this other w \<noteq> Rejected s) \<and>
      (\<forall>e v. sbo_assign this other w = Throws e v \<longrightarrow> e = copy_failure) \<and>
      (faults w = [] \<longrightarrow> (\<exists>v. sbo_assign this other w = Returns () v)))"
proof (intro conjI impI)
  assume a: "obj_at (inline_shapes w) this = Some (Object old) \<and>
    obj_at (inline_shapes w) other = Some (Object m) \<and> this \<noteq> other"
  let ?w1 = "w\<lparr>inline_shapes := (inline_shapes w)[this := Some Raw],
                destructions := Suc (destructions w)\<rparr>"
  from a have lt: "this < length (inline_shapes w)" by (auto dest: obj_at_Some_less)
  from a have d: "sbo_destroy_model this w = Returns () ?w1"
    by (simp add: sbo_destroy_model_live)
  from a have src: "sbo_pimpl other ?w1 = Inr m" by auto
  from a src have eq: "sbo_assign this other w = sbo_clone m this ?w1"
    by (simp add: sbo_assign_live_target del: sbo_pimpl_Inr)
  have raw: "obj_at (inline_shapes ?w1) this = Some Raw" using lt by simp
  have thr: "\<forall>e w'. sbo_clone m this ?w1 = Throws e w' \<longrightarrow>
            obj_at (inline_shapes w') this = Some Raw \<and>
            sbo_serialize this w' = Inl dead_object \<and>
            destructions w' = Suc (destructions w) \<and> constructions w' = constructions w"
    using lt by (cases rule: sbo_clone_cases [of m this ?w1])
      (auto simp: sbo_serialize_def sbo_pimpl_def)
  have ret: "\<forall>w'. sbo_clone m this ?w1 = Returns () w' \<longrightarrow>
            obj_at (inline_shapes w') this = Some (Object m)"
    using lt by (cases rule: sbo_clone_cases [of m this ?w1]) auto
  from d raw eq thr ret
  show "\<exists>w1. sbo_destroy_model this w = Returns () w1 \<and>
         obj_at (inline_shapes w1) this = Some Raw \<and>
         destructions w1 = Suc (destructions w) \<and> constructions w1 = constructions w \<and>
         sbo_assign this other w = sbo_clone m this w1 \<and>
         (\<forall>e w'. sbo_clone m this w1 = Throws e w' \<longrightarrow>
            obj_at (inline_shapes w') this = Some Raw \<and>
            sbo_serialize this w' = Inl dead_object \<and>
            destructions w' = Suc (destructions w) \<and> constructions w' = constructions w) \<and>
         (\<forall>w'. sbo_clone m this w1 = Returns () w' \<longrightarrow>
            obj_at (inline_shapes w') this = Some (Object m))"
    by (intro exI [of _ ?w1]) simp
next
  assume "world_after (sbo_step op w) = Some w' \<and> obj_at (inline_shapes w') a = Some Raw \<and>
    obj_at (inline_shapes w) a \<noteq> Some Raw"
  then show "\<exists>src e. op = Assign a src \<and> sbo_step op w = Throws e w'"
    using valueless_only_by_failed_assignment by blast
next
  assume a: "obj_at (inline_shapes w) this = Some (Object old) \<and>
    obj_at (inline_shapes w) other = Some (Object m) \<and> this \<noteq> other"
  then have tgt: "obj_at (inline_shapes w) this = Some (Object old)"
    and src: "obj_at (inline_shapes w) other = Some (Object m)" and ne: "this \<noteq> other"
    by simp_all
  from tgt have lt: "this < length (inline_shapes w)" by (rule obj_at_Some_less)
  from sbo_observe [of other w m] src
  have obs: "sbo_serialize other w = Inr (serializer m (shape m))"
    "sbo_free_draw other w = Inr (drawer m (shape m))" by simp_all
  from tgt src ne
  show "\<forall>v. sbo_assign this other w = Returns () v \<longrightarrow>
         inline_shapes v = (inline_shapes w)[this := Some (Object m)] \<and>
         obj_at (inline_shapes v) this = Some (Object m) \<and>
         obj_at (inline_shapes v) other = Some (Object m) \<and>
         sbo_serialize this v = sbo_serialize other w \<and>
         sbo_free_draw this v = sbo_free_draw other w \<and>
         constructions v = Suc (constructions w) \<and>
         destructions v = Suc (destructions w)"
    using lt src ne obs
    by (cases rule: sbo_assign_cases)
       (auto simp: sbo_serialize_def sbo_free_draw_def sbo_pimpl_def do_serialize_def do_draw_def)
  from tgt src ne show "\<forall>u. sbo_assign this other w \<noteq> Undefined u"
    by (cases rule: sbo_assign_cases) auto
  from tgt src ne show "\<forall>s. sbo_assign this other w \<noteq> Rejected s"
    by (cases rule: sbo_assign_cases) auto
  from tgt src ne show "\<forall>e v. sbo_assign this other w = Throws e v \<longrightarrow> e = copy_failure"
    by (cases rule: sbo_assign_cases) auto
  {
    assume nf: "faults w = []"
    let ?w1 = "w\<lparr>inline_shapes := (inline_shapes w)[this := Some Raw],
                  destructions := Suc (destructions w)\<rparr>"
    from src ne have s1: "sbo_pimpl other ?w1 = Inr m" by auto
    from tgt s1 have eq: "sbo_assign this other w = sbo_clone m this ?w1"
      by (simp add: sbo_assign_live_target del: sbo_pimpl_Inr)
    from nf have "faults ?w1 = []" by simp
    from Model_ctor_no_fault [OF this, of "shape m" "drawer m" "serializer m"] eq
    show "\<exists>v. sbo_assign this other w = Returns () v"
      by (simp add: sbo_clone_def Model_copy_ctor_def)
  }
qed

theorem sbo_assignment_order_and_failure_witness:
  "obj_at (inline_shapes (two_circles [True])) 0 = Some (Object model_a) \<and>
   obj_at (inline_shapes (two_circles [True])) (Suc 0) = Some (Object model_b) \<and>
   (\<exists>w1 w'. sbo_destroy_model 0 (two_circles [True]) = Returns () w1 \<and>
      obj_at (inline_shapes w1) 0 = Some Raw \<and>
      sbo_assign 0 (Suc 0) (two_circles [True]) = Throws copy_failure w' \<and>
      world_after (sbo_step (Assign 0 (Suc 0)) (two_circles [True])) = Some w' \<and>
      obj_at (inline_shapes w') 0 = Some Raw \<and>
      sbo_serialize 0 w' = Inl dead_object \<and>
      (\<exists>src e. (Assign 0 (Suc 0) :: (Circle_rep, item list) sbo_op) = Assign 0 src \<and>
         sbo_step (Assign 0 (Suc 0)) (two_circles [True]) = Throws e w')) \<and>
   obj_at (inline_shapes (two_circles [])) 0 = Some (Object model_a) \<and>
   obj_at (inline_shapes (two_circles [])) (Suc 0) = Some (Object model_b) \<and>
   faults (two_circles []) = [] \<and>
   (\<exists>v. sbo_assign 0 (Suc 0) (two_circles []) = Returns () v \<and>
      inline_shapes v = [Some (Object model_b), Some (Object model_b)] \<and>
      sbo_serialize 0 v = sbo_serialize (Suc 0) (two_circles []) \<and>
      sbo_free_draw 0 v = Inr (lambda_drawer red (Circle 4.1)) \<and>
      constructions v = 3 \<and> destructions v = 1)"
proof -
  let ?w = "two_circles [True]"
  let ?w' = "(two_circles [])\<lparr>inline_shapes := [Some Raw, Some (Object model_b)], destructions := 1\<rparr>"
  have h: "obj_at (inline_shapes ?w) 0 = Some (Object model_a) \<and>
    obj_at (inline_shapes ?w) (Suc 0) = Some (Object model_b) \<and> (0::nat) \<noteq> Suc 0"
    by simp
  have after: "world_after (sbo_step (Assign 0 (Suc 0)) ?w) = Some ?w'"
    by (simp add: failed_assign)
  have raw: "obj_at (inline_shapes ?w') 0 = Some Raw" by (simp add: obj_at_def)
  have before: "obj_at (inline_shapes ?w) 0 \<noteq> Some Raw" by simp
  note inst = sbo_assignment_order_and_failure
    [of ?w 0 model_a "Suc 0" model_b "Assign 0 (Suc 0)" ?w' 0]
  from inst h obtain w1 where w1:
    "sbo_destroy_model 0 ?w = Returns () w1" "obj_at (inline_shapes w1) 0 = Some Raw"
    "sbo_assign 0 (Suc 0) ?w = sbo_clone model_b 0 w1"
    "\<forall>e w'. sbo_clone model_b 0 w1 = Throws e w' \<longrightarrow>
        obj_at (inline_shapes w') 0 = Some Raw \<and> sbo_serialize 0 w' = Inl dead_object \<and>
        destructions w' = Suc (destructions ?w) \<and> constructions w' = constructions ?w"
    by blast
  from w1(3) have cl: "sbo_clone model_b 0 w1 = Throws copy_failure ?w'"
    by (simp add: failed_assign)
  with w1(4) have ser: "sbo_serialize 0 ?w' = Inl dead_object" by blast
  from inst after raw before
  have only: "\<exists>src e. (Assign 0 (Suc 0) :: (Circle_rep, item list) sbo_op) = Assign 0 src \<and>
         sbo_step (Assign 0 (Suc 0)) ?w = Throws e ?w'"
    by blast
  let ?u = "two_circles []"
  have hu: "obj_at (inline_shapes ?u) 0 = Some (Object model_a) \<and>
    obj_at (inline_shapes ?u) (Suc 0) = Some (Object model_b) \<and> (0::nat) \<noteq> Suc 0"
    by simp
  have nf: "faults ?u = []" by (simp add: two_circles_def)
  note instu = sbo_assignment_order_and_failure
    [of ?u 0 model_a "Suc 0" model_b "Assign 0 (Suc 0)" ?w' 0]
  from instu hu nf obtain v where v: "sbo_assign 0 (Suc 0) ?u = Returns () v" by blast
  with instu hu have rv: "inline_shapes v = (inline_shapes ?u)[0 := Some (Object model_b)] \<and>
      sbo_serialize 0 v = sbo_serialize (Suc 0) ?u \<and>
      sbo_free_draw 0 v = sbo_free_draw (Suc 0) ?u \<and>
      constructions v = Suc (constructions ?u) \<and> destructions v = Suc (destructions ?u)"
    by blast
  have "sbo_free_draw (Suc 0) ?u = Inr (lambda_drawer red (Circle 4.1))"
    using sbo_observe [of "Suc 0" ?u model_b] by (simp add: model_b_def)
  with rv have rv': "inline_shapes v = [Some (Object model_b), Some (Object model_b)] \<and>
      sbo_serialize 0 v = sbo_serialize (Suc 0) ?u \<and>
      sbo_free_draw 0 v = Inr (lambda_drawer red (Circle 4.1)) \<and>
      constructions v = 3 \<and> destructions v = 1"
    by (simp add: two_circles_def)
  from h w1(1,2) failed_assign after raw ser only
  have first: "\<exists>w1 w'. sbo_destroy_model 0 (two_circles [True]) = Returns () w1 \<and>
      obj_at (inline_shapes w1) 0 = Some Raw \<and>
      sbo_assign 0 (Suc 0) (two_circles [True]) = Throws copy_failure w' \<and>
      world_after (sbo_step (Assign 0 (Suc 0)) (two_circles [True])) = Some w' \<and>
      obj_at (inline_shapes w') 0 = Some Raw \<and>
      sbo_serialize 0 w' = Inl dead_object \<and>
      (\<exists>src e. (Assign 0 (Suc 0) :: (Circle_rep, item list) sbo_op) = Assign 0 src \<and>
         sbo_step (Assign 0 (Suc 0)) (two_circles [True]) = Throws e w')"
    by blast
  from h first hu nf v rv' show ?thesis by blast
qed

subsection \<open>Copy assignment of the heap variant\<close>

lemma heap_model_Inr:
  "(heap_model b w = Inr m) =
     (\<exists>p. obj_at (heap_shapes w) b = Some (Ptr p) \<and> obj_at (heap w) p = Some m)"
  by (auto simp: heap_model_def heap_pimpl_def deref_def split: option.splits unique_ptr.splits)

lemma heap_pimpl_Some:
  "obj_at (heap_shapes w) b = Some p \<Longrightarrow> heap_pimpl b w = Inr p"
  by (simp add: heap_pimpl_def)

lemma heap_pimpl_None:
  "obj_at (heap_shapes w) b = None \<Longrightarrow> heap_pimpl b w = Inl dead_object"
  by (simp add: heap_pimpl_def)

lemma heap_clone_cases:
  obtains (bad_alloc) fs where "heap_clone m w = Throws bad_alloc (w\<lparr>faults := fs\<rparr>)"
  | (throws) fs where
      "heap_clone m w = Throws copy_failure (w\<lparr>heap := heap w @ [None], faults := fs\<rparr>)"
  | (returns) fs where
      "heap_clone m w =
         Returns (Ptr (length (heap w)))
           (w\<lparr>heap := heap w @ [Some m], faults := fs, constructions := Suc (constructions w)\<rparr>)"
proof (cases rule: make_unique_cases [of "shape m" "drawer m" "serializer m" w])
  case (bad_alloc fs)
  then have "heap_clone m w = Throws bad_alloc (w\<lparr>faults := fs\<rparr>)"
    by (simp add: heap_clone_def)
  then show ?thesis by (rule that(1))
next
  case (throws fs)
  then have "heap_clone m w = Throws copy_failure (w\<lparr>heap := heap w @ [None], faults := fs\<rparr>)"
    by (simp add: heap_clone_def)
  then show ?thesis by (rule that(2))
next
  case (returns fs)
  then have "heap_clone m w =
         Returns (Ptr (length (heap w)))
           (w\<lparr>heap := heap w @ [Some m], faults := fs, constructions := Suc (constructions w)\<rparr>)"
    by (simp add: heap_clone_def)
  then show ?thesis by (rule that(3))
qed

lemma obj_at_length [simp]: "obj_at xs (length xs) = None"
  by (simp add: obj_at_def)

lemma heap_clone_Throws:
  assumes "heap_clone m w = Throws e w'"
  shows "inline_shapes w' = inline_shapes w \<and> heap_shapes w' = heap_shapes w \<and>
    (\<forall>a. obj_at (heap w') a = obj_at (heap w) a) \<and>
    constructions w' = constructions w \<and> destructions w' = destructions w"
  using assms by (cases rule: heap_clone_cases [of m w]) auto

lemma heap_copy_ctor_model:
  "heap_model other w = Inr m \<Longrightarrow>
   heap_copy_ctor other w =
     (case heap_clone m w of
        Returns q w1 \<Rightarrow>
          Returns (length (heap_shapes w1)) (w1\<lparr>heap_shapes := heap_shapes w1 @ [Some q]\<rparr>)
      | Throws e w1 \<Rightarrow> Throws e w1
      | Undefined u \<Rightarrow> Undefined u
      | Rejected s \<Rightarrow> Rejected s)"
  by (auto simp: heap_model_def heap_copy_ctor_def split: sum.splits)

lemma heap_copy_ctor_no_model:
  "heap_model other w = Inl u \<Longrightarrow> heap_copy_ctor other w = Undefined u"
  by (auto simp: heap_model_def heap_copy_ctor_def split: sum.splits)

lemma heap_copy_ctor_cases:
  assumes "heap_model other w = Inr m"
  obtains (bad_alloc) fs where "heap_copy_ctor other w = Throws bad_alloc (w\<lparr>faults := fs\<rparr>)"
  | (throws) fs where
      "heap_copy_ctor other w = Throws copy_failure (w\<lparr>heap := heap w @ [None], faults := fs\<rparr>)"
  | (returns) fs where
      "heap_copy_ctor other w =
         Returns (length (heap_shapes w))
           (w\<lparr>heap_shapes := heap_shapes w @ [Some (Ptr (length (heap w)))],
              heap := heap w @ [Some m], faults := fs,
              constructions := Suc (constructions w)\<rparr>)"
proof (cases rule: heap_clone_cases [of m w])
  case (bad_alloc fs)
  with assms have "heap_copy_ctor other w = Throws bad_alloc (w\<lparr>faults := fs\<rparr>)"
    by (simp add: heap_copy_ctor_model)
  then show ?thesis by (rule that(1))
next
  case (throws fs)
  with assms have "heap_copy_ctor other w = Throws copy_failure (w\<lparr>heap := heap w @ [None], faults := fs\<rparr>)"
    by (simp add: heap_copy_ctor_model)
  then show ?thesis by (rule that(2))
next
  case (returns fs)
  with assms have "heap_copy_ctor other w =
         Returns (length (heap_shapes w))
           (w\<lparr>heap_shapes := heap_shapes w @ [Some (Ptr (length (heap w)))],
              heap := heap w @ [Some m], faults := fs,
              constructions := Suc (constructions w)\<rparr>)"
    by (simp add: heap_copy_ctor_model)
  then show ?thesis by (rule that(3))
qed

lemma swap_pimpl_not_Throws: "swap_pimpl this tmp w \<noteq> Throws e w'"
  by (auto simp: swap_pimpl_def split: sum.splits)

lemma delete_ptr_not_Throws: "delete_ptr p w \<noteq> Throws e w'"
  by (auto simp: delete_ptr_def split: unique_ptr.splits option.splits)

lemma heap_dtor_not_Throws: "heap_dtor this w \<noteq> Throws e w'"
  by (auto simp: heap_dtor_def delete_ptr_not_Throws split: sum.splits outcome.splits)

lemma heap_assign_Throws:
  assumes "heap_assign this other w = Throws e w'"
  shows "heap_copy_ctor other w = Throws e w'"
  using assms
  by (auto simp: heap_assign_def swap_pimpl_not_Throws heap_dtor_not_Throws
      split: outcome.splits sum.splits)

lemma heap_copy_ctor_Throws:
  assumes "heap_copy_ctor other w = Throws e w'"
  shows "\<exists>m. heap_model other w = Inr m \<and> heap_clone m w = Throws e w'"
proof (cases "heap_model other w")
  case (Inl u)
  with assms show ?thesis by (simp add: heap_copy_ctor_no_model)
next
  case (Inr m)
  with assms have "heap_clone m w = Throws e w'"
    by (simp add: heap_copy_ctor_model split: outcome.splits)
  with Inr show ?thesis by blast
qed

lemma heap_observe_eq:
  assumes "heap_shapes w' = heap_shapes w" and "\<forall>a. obj_at (heap w') a = obj_at (heap w) a"
  shows "heap_pimpl this w' = heap_pimpl this w" and "heap_model this w' = heap_model this w"
    and "heap_serialize this w' = heap_serialize this w"
    and "heap_free_draw this w' = heap_free_draw this w"
  using assms
  by (auto simp: heap_pimpl_def heap_model_def deref_def heap_serialize_def heap_free_draw_def
      split: option.splits sum.splits unique_ptr.splits)

lemma two_heap_circles_reachable:
  "heap_steps make_two_heap_circles (init (replicate 8 False @ fs)) = Some (two_heap_circles fs)"
  by (simp add: make_two_heap_circles_def heap_Shape_def make_unique_def Model_ctor_def
      copy_ctor_def next_fault_def init_def two_heap_circles_def model_a_def model_b_def
      numeral_eq_Suc)

lemma two_heap_circles_reachable_no_fault:
  "heap_steps make_two_heap_circles (init []) = Some (two_heap_circles [])"
  by (simp add: make_two_heap_circles_def heap_Shape_def make_unique_def Model_ctor_def
      copy_ctor_def next_fault_def init_def two_heap_circles_def model_a_def model_b_def)

lemma two_heap_circles_at [simp]:
  "obj_at (heap_shapes (two_heap_circles fs)) 0 = Some (Ptr 0)"
  "obj_at (heap_shapes (two_heap_circles fs)) (Suc 0) = Some (Ptr 1)"
  "heap_model 0 (two_heap_circles fs) = Inr model_a"
  "heap_model (Suc 0) (two_heap_circles fs) = Inr model_b"
  by (simp_all add: two_heap_circles_def obj_at_def heap_model_def heap_pimpl_def deref_def)

lemma failed_heap_clone:
  "heap_clone model_b (two_heap_circles [False, True]) =
     Throws copy_failure ((two_heap_circles [])\<lparr>heap := [Some model_a, Some model_b, None]\<rparr>)"
  by (simp add: heap_clone_def make_unique_def Model_ctor_def copy_ctor_def next_fault_def
      two_heap_circles_def)

text \<open>
  C4. Copy assignment of the heap variant clones into a temporary and then swaps. When
  cloning the model of the source raises, the assignment to a live target raises the same
  exception; and whenever the assignment raises, no shape has changed and no block of
  the heap has changed: the target has the pointer it had, holds the model it held,
  \<open>serialize()\<close> and \<open>free_draw\<close> on it give what they gave, and no model has been
  constructed or destroyed.
\<close>

theorem heap_assignment_strong_guarantee:
  "(obj_at (heap_shapes w) this = Some p \<and>
    heap_model other w = Inr m \<and> heap_clone m w = Throws e w' \<longrightarrow>
      heap_assign this other w = Throws e w') \<and>
   (heap_assign this other w = Throws e w' \<longrightarrow>
      heap_shapes w' = heap_shapes w \<and> (\<forall>a. obj_at (heap w') a = obj_at (heap w) a) \<and>
      heap_pimpl this w' = heap_pimpl this w \<and> heap_model this w' = heap_model this w \<and>
      heap_serialize this w' = heap_serialize this w \<and>
      heap_free_draw this w' = heap_free_draw this w \<and>
      constructions w' = constructions w \<and> destructions w' = destructions w)"
proof (intro conjI impI)
  assume "obj_at (heap_shapes w) this = Some p \<and>
    heap_model other w = Inr m \<and> heap_clone m w = Throws e w'"
  then show "heap_assign this other w = Throws e w'"
    by (simp add: heap_assign_def heap_copy_ctor_model heap_pimpl_Some)
next
  assume a: "heap_assign this other w = Throws e w'"
  then obtain m where "heap_clone m w = Throws e w'"
    using heap_assign_Throws heap_copy_ctor_Throws by blast
  from heap_clone_Throws [OF this]
  have s: "heap_shapes w' = heap_shapes w" and h: "\<forall>a. obj_at (heap w') a = obj_at (heap w) a"
    and c: "constructions w' = constructions w" and d: "destructions w' = destructions w"
    by simp_all
  show "heap_shapes w' = heap_shapes w" by (rule s)
  show "\<forall>a. obj_at (heap w') a = obj_at (heap w) a" by (rule h)
  show "heap_pimpl this w' = heap_pimpl this w" by (rule heap_observe_eq [OF s h])
  show "heap_model this w' = heap_model this w" by (rule heap_observe_eq [OF s h])
  show "heap_serialize this w' = heap_serialize this w" by (rule heap_observe_eq [OF s h])
  show "heap_free_draw this w' = heap_free_draw this w" by (rule heap_observe_eq [OF s h])
  show "constructions w' = constructions w" by (rule c)
  show "destructions w' = destructions w" by (rule d)
qed

theorem heap_assignment_strong_guarantee_witness:
  "obj_at (heap_shapes (two_heap_circles [False, True])) 0 = Some (Ptr 0) \<and>
   heap_model (Suc 0) (two_heap_circles [False, True]) = Inr model_b \<and>
   heap_clone model_b (two_heap_circles [False, True]) =
     Throws copy_failure ((two_heap_circles [])\<lparr>heap := [Some model_a, Some model_b, None]\<rparr>) \<and>
   heap_assign 0 (Suc 0) (two_heap_circles [False, True]) =
     Throws copy_failure ((two_heap_circles [])\<lparr>heap := [Some model_a, Some model_b, None]\<rparr>) \<and>
   heap_model 0 ((two_heap_circles [])\<lparr>heap := [Some model_a, Some model_b, None]\<rparr>) = Inr model_a \<and>
   heap_serialize 0 ((two_heap_circles [])\<lparr>heap := [Some model_a, Some model_b, None]\<rparr>) =
     Inr ''circle''"
proof -
  let ?w = "two_heap_circles [False, True]"
  let ?w' = "(two_heap_circles [])\<lparr>heap := [Some model_a, Some model_b, None]\<rparr>"
  have h: "obj_at (heap_shapes ?w) 0 = Some (Ptr 0) \<and> heap_model (Suc 0) ?w = Inr model_b \<and>
    heap_clone model_b ?w = Throws copy_failure ?w'"
    by (simp add: failed_heap_clone)
  note inst = heap_assignment_strong_guarantee [of ?w 0 "Ptr 0" "Suc 0" model_b copy_failure ?w']
  from inst h have thr: "heap_assign 0 (Suc 0) ?w = Throws copy_failure ?w'" by blast
  with inst have same: "heap_model 0 ?w' = heap_model 0 ?w"
    "heap_serialize 0 ?w' = heap_serialize 0 ?w" by blast+
  have "heap_serialize 0 ?w = Inr ''circle''"
    using heap_observe [of 0 ?w model_a] by (simp add: model_a_def kind_serializer_def)
  with same h thr show ?thesis by simp
qed

subsection \<open>Moved-from shapes of the heap variant\<close>

lemma heap_move_ctor_live:
  "obj_at (heap_shapes w) other = Some p \<Longrightarrow>
   heap_move_ctor other w =
     Returns (length (heap_shapes w))
       (w\<lparr>heap_shapes := (heap_shapes w)[other := Some nullptr] @ [Some p]\<rparr>)"
  by (simp add: heap_move_ctor_def heap_pimpl_def)

lemma delete_ptr_null: "delete_ptr nullptr w = Returns () w"
  by (simp add: delete_ptr_def)

lemma delete_ptr_live:
  "obj_at (heap w) a = Some m \<Longrightarrow>
   delete_ptr (Ptr a) w =
     Returns () (w\<lparr>heap := (heap w)[a := None], destructions := Suc (destructions w)\<rparr>)"
  by (simp add: delete_ptr_def)

lemma heap_move_assign_live:
  assumes "obj_at (heap_shapes w) other = Some p" and "obj_at (heap_shapes w) this = Some old"
    and "this \<noteq> other"
  shows "heap_move_assign this other w =
     delete_ptr old (w\<lparr>heap_shapes := (heap_shapes w)[other := Some nullptr, this := Some p]\<rparr>)"
proof -
  from assms(1) have "other < length (heap_shapes w)" by (rule obj_at_Some_less)
  with assms show ?thesis
    by (simp add: heap_move_assign_def heap_pimpl_def Let_def)
qed

lemma heap_move_assign_self:
  assumes "obj_at (heap_shapes w) this = Some p"
  shows "heap_move_assign this this w = Returns () w"
proof -
  from assms have lt: "this < length (heap_shapes w)" by (rule obj_at_Some_less)
  with assms have "(heap_shapes w)[this := Some p] = heap_shapes w"
    by (simp add: obj_at_def list_update_same_conv)
  then have "w\<lparr>heap_shapes := (heap_shapes w)[this := Some p]\<rparr> = w"
    by (cases w) simp
  with assms lt show ?thesis
    by (simp add: heap_move_assign_def heap_pimpl_def Let_def delete_ptr_null)
qed

lemma heap_dtor_null:
  "obj_at (heap_shapes w) this = Some nullptr \<Longrightarrow>
   heap_dtor this w = Returns () (w\<lparr>heap_shapes := (heap_shapes w)[this := None]\<rparr>)"
  by (simp add: heap_dtor_def heap_pimpl_def delete_ptr_null)

lemma heap_dtor_live:
  "obj_at (heap_shapes w) this = Some (Ptr a) \<Longrightarrow> obj_at (heap w) a = Some m \<Longrightarrow>
   heap_dtor this w =
     Returns () (w\<lparr>heap_shapes := (heap_shapes w)[this := None],
                   heap := (heap w)[a := None], destructions := Suc (destructions w)\<rparr>)"
  by (simp add: heap_dtor_def heap_pimpl_def delete_ptr_live)

lemma heap_model_null:
  "obj_at (heap_shapes w) this = Some nullptr \<Longrightarrow> heap_model this w = Inl null_dereference"
  by (simp add: heap_model_def heap_pimpl_def deref_def)

lemma heap_observe_Inl:
  "heap_model this w = Inl u \<Longrightarrow>
   heap_serialize this w = Inl u \<and> heap_free_draw this w = Inl u"
  by (auto simp: heap_model_def heap_serialize_def heap_free_draw_def split: sum.splits)

text \<open>The block a pointer owns is released: nothing for the null pointer.\<close>

lemma heap_assign_cases:
  assumes tgt: "obj_at (heap_shapes w) this = Some p"
    and src: "heap_model other w = Inr m"
    and p: "p = nullptr \<or> (\<exists>a old. p = Ptr a \<and> obj_at (heap w) a = Some old)"
  obtains (bad_alloc) fs where "heap_assign this other w = Throws bad_alloc (w\<lparr>faults := fs\<rparr>)"
  | (throws) fs where
      "heap_assign this other w = Throws copy_failure (w\<lparr>heap := heap w @ [None], faults := fs\<rparr>)"
  | (returns_null) fs where "p = nullptr"
      "heap_assign this other w =
         Returns ()
           (w\<lparr>heap_shapes := (heap_shapes w)[this := Some (Ptr (length (heap w)))] @ [None],
              heap := heap w @ [Some m], faults := fs,
              constructions := Suc (constructions w)\<rparr>)"
  | (returns_live) fs a old where "p = Ptr a" "obj_at (heap w) a = Some old"
      "heap_assign this other w =
         Returns ()
           (w\<lparr>heap_shapes := (heap_shapes w)[this := Some (Ptr (length (heap w)))] @ [None],
              heap := (heap w)[a := None] @ [Some m], faults := fs,
              constructions := Suc (constructions w), destructions := Suc (destructions w)\<rparr>)"
proof -
  from tgt have lt: "this < length (heap_shapes w)" by (rule obj_at_Some_less)
  from tgt have pim: "heap_pimpl this w = Inr p" by (rule heap_pimpl_Some)
  from src show ?thesis
  proof (cases rule: heap_copy_ctor_cases)
    case (bad_alloc fs)
    with pim have "heap_assign this other w = Throws bad_alloc (w\<lparr>faults := fs\<rparr>)"
      by (simp add: heap_assign_def)
    then show ?thesis by (rule that(1))
  next
    case (throws fs)
    with pim have "heap_assign this other w = Throws copy_failure (w\<lparr>heap := heap w @ [None], faults := fs\<rparr>)"
      by (simp add: heap_assign_def)
    then show ?thesis by (rule that(2))
  next
    case (returns fs)
    from p show ?thesis
    proof
      assume n: "p = nullptr"
      from returns pim lt tgt n have "heap_assign this other w =
         Returns ()
           (w\<lparr>heap_shapes := (heap_shapes w)[this := Some (Ptr (length (heap w)))] @ [None],
              heap := heap w @ [Some m], faults := fs,
              constructions := Suc (constructions w)\<rparr>)"
        by (simp add: heap_assign_def swap_pimpl_def heap_pimpl_def heap_dtor_def delete_ptr_def
            list_update_append)
      with n show ?thesis by (rule that(3))
    next
      assume "\<exists>a old. p = Ptr a \<and> obj_at (heap w) a = Some old"
      then obtain a old where a: "p = Ptr a" "obj_at (heap w) a = Some old" by blast
      from a(2) have "a < length (heap w)" by (rule obj_at_Some_less)
      with returns pim lt tgt a have "heap_assign this other w =
         Returns ()
           (w\<lparr>heap_shapes := (heap_shapes w)[this := Some (Ptr (length (heap w)))] @ [None],
              heap := (heap w)[a := None] @ [Some m], faults := fs,
              constructions := Suc (constructions w), destructions := Suc (destructions w)\<rparr>)"
        by (simp add: heap_assign_def swap_pimpl_def heap_pimpl_def heap_dtor_def delete_ptr_def
            list_update_append)
      with a show ?thesis by (rule that(4))
    qed
  qed
qed


lemma heap_copy_ctor_null:
  "obj_at (heap_shapes w) e = Some nullptr \<Longrightarrow> heap_copy_ctor e w = Undefined null_dereference"
  by (simp add: heap_copy_ctor_no_model heap_model_null)

lemma heap_assign_from_null:
  "obj_at (heap_shapes w) e = Some nullptr \<Longrightarrow> obj_at (heap_shapes w) x = Some q \<Longrightarrow>
   heap_assign x e w = Undefined null_dereference"
  by (simp add: heap_assign_def heap_pimpl_Some heap_copy_ctor_null)

lemma moved_from_world:
  "heap_move_ctor (Suc 0) (two_heap_circles []) =
     Returns 2 ((two_heap_circles [])\<lparr>heap_shapes := [Some (Ptr 0), Some nullptr, Some (Ptr 1)]\<rparr>)"
  by (simp add: heap_move_ctor_def heap_pimpl_def obj_at_def two_heap_circles_def)

text \<open>
  Two operations that are neither a destruction nor an assignment to the empty shape and
  are well defined all the same: after the second circle has been moved from, moving from
  it again returns; and a shape move-assigned to itself keeps its pointer.
\<close>

theorem moving_from_the_empty_shape_returns:
  "obj_at (heap_shapes ((two_heap_circles [])
       \<lparr>heap_shapes := [Some (Ptr 0), Some nullptr, Some (Ptr 1)]\<rparr>)) (Suc 0) = Some nullptr \<and>
   heap_move_ctor (Suc 0)
     ((two_heap_circles [])\<lparr>heap_shapes := [Some (Ptr 0), Some nullptr, Some (Ptr 1)]\<rparr>) =
     Returns 3 ((two_heap_circles [])
       \<lparr>heap_shapes := [Some (Ptr 0), Some nullptr, Some (Ptr 1), Some nullptr]\<rparr>) \<and>
   heap_move_assign 0 0 (two_heap_circles []) = Returns () (two_heap_circles []) \<and>
   obj_at (heap_shapes (two_heap_circles [])) 0 = Some (Ptr 0)"
  by (simp add: heap_move_ctor_def heap_move_assign_def heap_pimpl_def delete_ptr_def Let_def
      obj_at_def two_heap_circles_def)

text \<open>
  C10, as the code has it. The defaulted move constructor of the heap variant hands the
  pointer of its argument to the new shape and leaves the argument with a null pointer,
  touching neither the heap nor any model; the defaulted move assignment between two
  distinct shapes does the same for its target, and a shape move-assigned to itself is left
  as it was. On a shape whose pointer is null, \<open>serialize()\<close> and \<open>free_draw\<close>
  dereference the null pointer, and so does copying from it, by the copy constructor or
  as the source of a copy assignment; the destructor returns without touching the heap, a
  copy assignment to it from a shape that holds a model is never undefined and, when it
  returns, leaves it holding that model, and moving from it returns as well.
\<close>

theorem moved_from_heap_shape:
  "(obj_at (heap_shapes w) other = Some p \<longrightarrow>
      (\<exists>w'. heap_move_ctor other w = Returns (length (heap_shapes w)) w' \<and>
         obj_at (heap_shapes w') (length (heap_shapes w)) = Some p \<and>
         obj_at (heap_shapes w') other = Some nullptr \<and> heap w' = heap w \<and>
         constructions w' = constructions w \<and> destructions w' = destructions w)) \<and>
   (obj_at (heap_shapes w) other = Some p \<and> obj_at (heap_shapes w) this = Some old \<and>
    this \<noteq> other \<and> (old = nullptr \<or> (\<exists>a m. old = Ptr a \<and> obj_at (heap w) a = Some m)) \<longrightarrow>
      (\<exists>w'. heap_move_assign this other w = Returns () w' \<and>
         obj_at (heap_shapes w') this = Some p \<and>
         obj_at (heap_shapes w') other = Some nullptr)) \<and>
   (obj_at (heap_shapes w) e = Some nullptr \<longrightarrow>
      heap_serialize e w = Inl null_dereference \<and>
      heap_free_draw e w = Inl null_dereference \<and>
      heap_copy_ctor e w = Undefined null_dereference \<and>
      (obj_at (heap_shapes w) x = Some q \<longrightarrow> heap_assign x e w = Undefined null_dereference) \<and>
      (\<exists>w'. heap_dtor e w = Returns () w' \<and> obj_at (heap_shapes w') e = None \<and>
         heap w' = heap w) \<and>
      (heap_model src w = Inr m \<longrightarrow>
         (\<forall>u. heap_assign e src w \<noteq> Undefined u) \<and>
         (\<forall>w'. heap_assign e src w = Returns () w' \<longrightarrow> heap_model e w' = Inr m)) \<and>
      (\<exists>w'. heap_move_ctor e w = Returns (length (heap_shapes w)) w' \<and>
         obj_at (heap_shapes w') (length (heap_shapes w)) = Some nullptr \<and>
         heap w' = heap w)) \<and>
   (obj_at (heap_shapes w) sm = Some pm \<longrightarrow> heap_move_assign sm sm w = Returns () w)"
proof (intro conjI impI)
  assume a: "obj_at (heap_shapes w) other = Some p"
  then have lt: "other < length (heap_shapes w)" by (rule obj_at_Some_less)
  let ?w' = "w\<lparr>heap_shapes := (heap_shapes w)[other := Some nullptr] @ [Some p]\<rparr>"
  from a have "heap_move_ctor other w = Returns (length (heap_shapes w)) ?w'"
    by (rule heap_move_ctor_live)
  moreover from lt have "obj_at (heap_shapes ?w') (length (heap_shapes w)) = Some p \<and>
         obj_at (heap_shapes ?w') other = Some nullptr \<and> heap ?w' = heap w \<and>
         constructions ?w' = constructions w \<and> destructions ?w' = destructions w"
    by simp
  ultimately show "\<exists>w'. heap_move_ctor other w = Returns (length (heap_shapes w)) w' \<and>
         obj_at (heap_shapes w') (length (heap_shapes w)) = Some p \<and>
         obj_at (heap_shapes w') other = Some nullptr \<and> heap w' = heap w \<and>
         constructions w' = constructions w \<and> destructions w' = destructions w"
    by blast
next
  assume a: "obj_at (heap_shapes w) other = Some p \<and> obj_at (heap_shapes w) this = Some old \<and>
    this \<noteq> other \<and> (old = nullptr \<or> (\<exists>a m. old = Ptr a \<and> obj_at (heap w) a = Some m))"
  then have lt: "other < length (heap_shapes w)" "this < length (heap_shapes w)"
    by (auto dest: obj_at_Some_less)
  let ?w1 = "w\<lparr>heap_shapes := (heap_shapes w)[other := Some nullptr, this := Some p]\<rparr>"
  from a have eq: "heap_move_assign this other w = delete_ptr old ?w1"
    by (simp add: heap_move_assign_live)
  from a have "old = nullptr \<or> (\<exists>a m. old = Ptr a \<and> obj_at (heap w) a = Some m)" by simp
  then have "\<exists>w'. delete_ptr old ?w1 = Returns () w' \<and> heap_shapes w' = heap_shapes ?w1"
    by (auto simp: delete_ptr_def)
  then obtain w' where w': "delete_ptr old ?w1 = Returns () w'" "heap_shapes w' = heap_shapes ?w1"
    by blast
  from w'(2) lt a have "obj_at (heap_shapes w') this = Some p \<and>
         obj_at (heap_shapes w') other = Some nullptr"
    by auto
  with eq w'(1) show "\<exists>w'. heap_move_assign this other w = Returns () w' \<and>
         obj_at (heap_shapes w') this = Some p \<and>
         obj_at (heap_shapes w') other = Some nullptr"
    by simp
next
  assume e: "obj_at (heap_shapes w) e = Some nullptr"
  then have lt: "e < length (heap_shapes w)" by (rule obj_at_Some_less)
  from heap_observe_Inl [OF heap_model_null [OF e]]
  show "heap_serialize e w = Inl null_dereference" and "heap_free_draw e w = Inl null_dereference"
    by simp_all
  from e show "heap_copy_ctor e w = Undefined null_dereference" by (rule heap_copy_ctor_null)
  {
    assume "obj_at (heap_shapes w) x = Some q"
    with e show "heap_assign x e w = Undefined null_dereference"
      by (rule heap_assign_from_null)
  }
  from e lt show "\<exists>w'. heap_dtor e w = Returns () w' \<and> obj_at (heap_shapes w') e = None \<and>
         heap w' = heap w"
    by (simp add: heap_dtor_null)
  {
    assume src: "heap_model src w = Inr m"
    have p: "nullptr = nullptr \<or> (\<exists>a old. nullptr = Ptr a \<and> obj_at (heap w) a = Some old)"
      by simp
    from e src p show "\<forall>u. heap_assign e src w \<noteq> Undefined u"
      by (cases rule: heap_assign_cases) auto
    from e src p show "\<forall>w'. heap_assign e src w = Returns () w' \<longrightarrow> heap_model e w' = Inr m"
      using lt by (cases rule: heap_assign_cases) (auto simp: heap_model_Inr)
  }
  from heap_move_ctor_live [OF e] lt
  show "\<exists>w'. heap_move_ctor e w = Returns (length (heap_shapes w)) w' \<and>
         obj_at (heap_shapes w') (length (heap_shapes w)) = Some nullptr \<and>
         heap w' = heap w"
    by simp
next
  assume "obj_at (heap_shapes w) sm = Some pm"
  then show "heap_move_assign sm sm w = Returns () w" by (rule heap_move_assign_self)
qed


theorem moved_from_heap_shape_witness:
  "obj_at (heap_shapes (two_heap_circles [])) (Suc 0) = Some (Ptr 1) \<and>
   obj_at (heap_shapes (two_heap_circles [])) 0 = Some (Ptr 0) \<and>
   heap_move_ctor (Suc 0) (two_heap_circles []) =
     Returns 2 ((two_heap_circles [])\<lparr>heap_shapes := [Some (Ptr 0), Some nullptr, Some (Ptr 1)]\<rparr>) \<and>
   (\<exists>w'. heap_move_assign 0 (Suc 0) (two_heap_circles []) = Returns () w' \<and>
      obj_at (heap_shapes w') 0 = Some (Ptr 1) \<and> obj_at (heap_shapes w') (Suc 0) = Some nullptr) \<and>
   heap_serialize (Suc 0)
     ((two_heap_circles [])\<lparr>heap_shapes := [Some (Ptr 0), Some nullptr, Some (Ptr 1)]\<rparr>) =
     Inl null_dereference \<and>
   heap_free_draw (Suc 0)
     ((two_heap_circles [])\<lparr>heap_shapes := [Some (Ptr 0), Some nullptr, Some (Ptr 1)]\<rparr>) =
     Inl null_dereference \<and>
   heap_copy_ctor (Suc 0)
     ((two_heap_circles [])\<lparr>heap_shapes := [Some (Ptr 0), Some nullptr, Some (Ptr 1)]\<rparr>) =
     Undefined null_dereference"
proof -
  let ?w = "two_heap_circles []"
  let ?w' = "(two_heap_circles [])\<lparr>heap_shapes := [Some (Ptr 0), Some nullptr, Some (Ptr 1)]\<rparr>"
  have h1: "obj_at (heap_shapes ?w) (Suc 0) = Some (Ptr 1)" by simp
  have h2: "obj_at (heap_shapes ?w) (Suc 0) = Some (Ptr 1) \<and> obj_at (heap_shapes ?w) 0 = Some (Ptr 0) \<and>
    (0::nat) \<noteq> Suc 0 \<and> (Ptr 0 = nullptr \<or> (\<exists>a m. Ptr 0 = Ptr a \<and> obj_at (heap ?w) a = Some m))"
    by (simp add: two_heap_circles_def obj_at_def)
  have h3: "obj_at (heap_shapes ?w') (Suc 0) = Some nullptr"
    by (simp add: obj_at_def)
  from moved_from_heap_shape [of ?w "Suc 0" "Ptr 1" 0 "Ptr 0"] h2
  have ma: "\<exists>w'. heap_move_assign 0 (Suc 0) ?w = Returns () w' \<and>
      obj_at (heap_shapes w') 0 = Some (Ptr 1) \<and> obj_at (heap_shapes w') (Suc 0) = Some nullptr"
    by blast
  from moved_from_heap_shape [of ?w' _ _ _ _ "Suc 0"] h3
  have em: "heap_serialize (Suc 0) ?w' = Inl null_dereference \<and>
    heap_free_draw (Suc 0) ?w' = Inl null_dereference \<and>
    heap_copy_ctor (Suc 0) ?w' = Undefined null_dereference"
    by blast
  from h1 h2 moved_from_world ma em show ?thesis by blast
qed

subsection \<open>Self-assignment\<close>

lemma two_circles_reachable_no_fault:
  "sbo_run make_two_circles (init []) = Some (two_circles [])"
  by (simp add: make_two_circles_def sbo_Shape_def Let_def Model_ctor_def copy_ctor_def
      next_fault_def init_def two_circles_def model_a_def model_b_def small_layout_def
      buffersize_def alignment_def)

text \<open>
  C6. Self-assignment of an inline shape. The world of the two circles is what the two
  constructor calls build; the shape at address 0 holds a model. In \<open>b = b\<close> the first
  statement of the assignment operator destroys that model, so the second statement finds
  no live object in the buffer of its source, which is the same buffer: the assignment
  calls \<open>clone\<close> on a destroyed model. The copy assignment of the heap variant, on the
  same two circles, returns and leaves the shape holding its model.
\<close>

theorem self_assignment_reads_destroyed_model:
  "sbo_run make_two_circles (init []) = Some (two_circles []) \<and>
   sbo_pimpl 0 (two_circles []) = Inr model_a \<and>
   sbo_destroy_model 0 (two_circles []) =
     Returns () ((two_circles [])\<lparr>inline_shapes := [Some Raw, Some (Object model_b)],
                                    destructions := 1\<rparr>) \<and>
   sbo_pimpl 0 ((two_circles [])\<lparr>inline_shapes := [Some Raw, Some (Object model_b)],
                                   destructions := 1\<rparr>) = Inl dead_object \<and>
   sbo_assign 0 0 (two_circles []) = Undefined dead_object \<and>
   heap_steps make_two_heap_circles (init []) = Some (two_heap_circles []) \<and>
   heap_assign 0 0 (two_heap_circles []) =
     Returns () ((two_heap_circles [])
       \<lparr>heap_shapes := [Some (Ptr 2), Some (Ptr 1), None],
        heap := [None, Some model_b, Some model_a],
        constructions := 3, destructions := 1\<rparr>) \<and>
   heap_model 0 ((two_heap_circles [])
       \<lparr>heap_shapes := [Some (Ptr 2), Some (Ptr 1), None],
        heap := [None, Some model_b, Some model_a],
        constructions := 3, destructions := 1\<rparr>) = Inr model_a"
proof (intro conjI)
  show "sbo_run make_two_circles (init []) = Some (two_circles [])"
    by (rule two_circles_reachable_no_fault)
  show "sbo_pimpl 0 (two_circles []) = Inr model_a" by simp
  show "sbo_destroy_model 0 (two_circles []) =
     Returns () ((two_circles [])\<lparr>inline_shapes := [Some Raw, Some (Object model_b)],
                                    destructions := 1\<rparr>)"
    by (simp add: sbo_destroy_model_def sbo_pimpl_def obj_at_def two_circles_def)
  show "sbo_pimpl 0 ((two_circles [])\<lparr>inline_shapes := [Some Raw, Some (Object model_b)],
                                   destructions := 1\<rparr>) = Inl dead_object"
    by (simp add: sbo_pimpl_def obj_at_def)
  show "sbo_assign 0 0 (two_circles []) = Undefined dead_object"
    by (simp add: sbo_assign_def sbo_destroy_model_def sbo_pimpl_def obj_at_def two_circles_def)
  show "heap_steps make_two_heap_circles (init []) = Some (two_heap_circles [])"
    by (rule two_heap_circles_reachable_no_fault)
  show "heap_assign 0 0 (two_heap_circles []) =
     Returns () ((two_heap_circles [])
       \<lparr>heap_shapes := [Some (Ptr 2), Some (Ptr 1), None],
        heap := [None, Some model_b, Some model_a],
        constructions := 3, destructions := 1\<rparr>)"
    by (simp add: heap_assign_def heap_copy_ctor_def heap_pimpl_def deref_def heap_clone_def
        make_unique_def Model_ctor_def copy_ctor_def next_fault_def swap_pimpl_def heap_dtor_def
        delete_ptr_def obj_at_def two_heap_circles_def)
  show "heap_model 0 ((two_heap_circles [])
       \<lparr>heap_shapes := [Some (Ptr 2), Some (Ptr 1), None],
        heap := [None, Some model_b, Some model_a],
        constructions := 3, destructions := 1\<rparr>) = Inr model_a"
    by (simp add: heap_model_def heap_pimpl_def deref_def obj_at_def)
qed

subsection \<open>The two variants side by side\<close>





subsection \<open>Constructions and destructions\<close>

lemma filter_update_count:
  "a < length xs \<Longrightarrow>
   length (filter P (xs[a := v])) + (if P (xs ! a) then 1 else 0) =
   length (filter P xs) + (if P v then 1 else 0)"
proof (induction xs arbitrary: a)
  case Nil
  then show ?case by simp
next
  case (Cons u xs)
  then show ?case by (cases a) auto
qed

lemma live_models_update:
  assumes "obj_at (inline_shapes w) a = Some b"
  shows "length (filter holds_model ((inline_shapes w)[a := v])) + (if holds_model (Some b) then 1 else 0) =
    live_models w + (if holds_model v then 1 else 0)"
proof -
  from assms have lt: "a < length (inline_shapes w)" by (rule obj_at_Some_less)
  with assms have "inline_shapes w ! a = Some b" by (simp add: obj_at_def)
  with filter_update_count [OF lt, of holds_model v] show ?thesis
    by (simp add: live_models_def)
qed

text \<open>What a returning step does to the counters.\<close>

lemma sbo_step_counts:
  assumes "sbo_step op w = Returns u w'"
  shows "constructions w' =
      constructions w + (if makes_box op \<or> is_assignment op then 1 else 0) \<and>
    destructions w' =
      destructions w + (if is_assignment op \<or> is_destruction op then 1 else 0) \<and>
    live_models w' + (if is_destruction op then 1 else 0) =
      live_models w + (if makes_box op then 1 else 0) \<and>
    length (inline_shapes w') = length (inline_shapes w) + (if makes_box op then 1 else 0) \<and>
    heap w' = heap w \<and> heap_shapes w' = heap_shapes w"
proof (cases op)
  case (Construct sh dr se M)
  with assms have r: "\<exists>b. sbo_Shape sh dr se M w = Returns b w'"
    by (auto split: outcome.splits)
  then have "fits M" by (auto dest: sbo_Shape_Returns_fits)
  then show ?thesis using r Construct
    by (cases rule: sbo_Shape_cases [of M sh dr se w]) (auto simp: live_models_def)
next
  case (Copy other)
  with assms have r: "\<exists>b. sbo_copy_ctor other w = Returns b w'"
    by (auto split: outcome.splits)
  show ?thesis
  proof (cases "\<exists>m. obj_at (inline_shapes w) other = Some (Object m)")
    case True
    then obtain m where "obj_at (inline_shapes w) other = Some (Object m)" by blast
    then show ?thesis using r Copy
      by (cases rule: sbo_copy_ctor_cases) (auto simp: live_models_def)
  next
    case False
    then have "sbo_copy_ctor other w = Undefined dead_object" by (simp add: sbo_copy_ctor_dead)
    with r show ?thesis by simp
  qed
next
  case (Assign this other)
  with assms have r: "sbo_assign this other w = Returns u w'" by simp
  show ?thesis
  proof (cases "\<exists>old. obj_at (inline_shapes w) this = Some (Object old)")
    case True
    then obtain old where old: "obj_at (inline_shapes w) this = Some (Object old)" by blast
    show ?thesis
    proof (cases "\<exists>m. obj_at (inline_shapes w) other = Some (Object m)")
      case True
      then obtain m where m: "obj_at (inline_shapes w) other = Some (Object m)" by blast
      show ?thesis
      proof (cases "this = other")
        case True
        with r show ?thesis by (simp add: sbo_assign_self)
      next
        case False
        from live_models_update [OF old, of "Some (Object m)"]
        have l: "length (filter holds_model ((inline_shapes w)[this := Some (Object m)])) =
          live_models w" by simp
        from old m False show ?thesis using r Assign l
          by (cases rule: sbo_assign_cases) (auto simp: live_models_def)
      qed
    next
      case False
      then have "\<forall>m. obj_at (inline_shapes w) other \<noteq> Some (Object m)" by simp
      from sbo_assign_dead_source [OF this, of this] r show ?thesis by auto
    qed
  next
    case False
    then have "sbo_assign this other w = Undefined dead_object"
      by (simp add: sbo_assign_dead_target)
    with r show ?thesis by simp
  qed
next
  case (Destroy this)
  with assms have r: "sbo_dtor this w = Returns u w'" by simp
  show ?thesis
  proof (cases "\<exists>m. obj_at (inline_shapes w) this = Some (Object m)")
    case True
    then obtain m where m: "obj_at (inline_shapes w) this = Some (Object m)" by blast
    from live_models_update [OF m, of None]
    have l: "Suc (length (filter holds_model ((inline_shapes w)[this := None]))) = live_models w"
      by simp
    from sbo_dtor_live [OF m] r Destroy l show ?thesis
      by (auto simp: live_models_def)
  next
    case False
    then have "sbo_dtor this w = Undefined dead_object" by (simp add: sbo_dtor_dead)
    with r show ?thesis by simp
  qed
next
  case (Serialize this)
  with assms show ?thesis by (auto split: sum.splits)
next
  case (Draw this)
  with assms show ?thesis by (auto split: sum.splits)
qed

lemma sbo_run_counts:
  "sbo_run ops w = Some w' \<Longrightarrow>
   constructions w' =
     constructions w + length (filter makes_box ops) + length (filter is_assignment ops) \<and>
   destructions w' =
     destructions w + length (filter is_assignment ops) + length (filter is_destruction ops) \<and>
   live_models w' + length (filter is_destruction ops) =
     live_models w + length (filter makes_box ops) \<and>
   length (inline_shapes w') = length (inline_shapes w) + length (filter makes_box ops) \<and>
   heap w' = heap w \<and> heap_shapes w' = heap_shapes w"
proof (induction ops arbitrary: w)
  case Nil
  then show ?case by simp
next
  case (Cons op ops)
  from Cons.prems obtain u w1 where s: "sbo_step op w = Returns u w1" and r: "sbo_run ops w1 = Some w'"
    by (auto split: outcome.splits)
  from sbo_step_counts [OF s] Cons.IH [OF r] show ?case
    by (cases op) simp_all
qed


lemma assign_and_destroy_run:
  "sbo_run assign_and_destroy (init []) =
     Some \<lparr>inline_shapes = [None, None], heap_shapes = [], heap = [], faults = [],
           constructions = 3, destructions = 3\<rparr>"
  by (simp add: assign_and_destroy_def make_two_circles_def sbo_Shape_def Let_def Model_ctor_def
      copy_ctor_def next_fault_def init_def small_layout_def buffersize_def alignment_def
      sbo_assign_def sbo_destroy_model_def sbo_pimpl_def sbo_clone_def Model_copy_ctor_def
      sbo_dtor_def obj_at_def)

lemma valueless_update:
  assumes "obj_at (inline_shapes w) a = Some b"
  shows "length (filter valueless ((inline_shapes w)[a := v])) + (if valueless (Some b) then 1 else 0) =
    length (filter valueless (inline_shapes w)) + (if valueless v then 1 else 0)"
proof -
  from assms have lt: "a < length (inline_shapes w)" by (rule obj_at_Some_less)
  with assms have "inline_shapes w ! a = Some b" by (simp add: obj_at_def)
  with filter_update_count [OF lt, of valueless v] show ?thesis by simp
qed

lemma sbo_step_returns_valueless:
  assumes "sbo_step op w = Returns u w'"
  shows "length (filter valueless (inline_shapes w')) = length (filter valueless (inline_shapes w))"
proof (cases op)
  case (Construct sh dr se M)
  with assms have r: "\<exists>b. sbo_Shape sh dr se M w = Returns b w'"
    by (auto split: outcome.splits)
  then have "fits M" by (auto dest: sbo_Shape_Returns_fits)
  then show ?thesis using r
    by (cases rule: sbo_Shape_cases [of M sh dr se w]) auto
next
  case (Copy other)
  with assms have r: "\<exists>b. sbo_copy_ctor other w = Returns b w'"
    by (auto split: outcome.splits)
  show ?thesis
  proof (cases "\<exists>m. obj_at (inline_shapes w) other = Some (Object m)")
    case True
    then obtain m where "obj_at (inline_shapes w) other = Some (Object m)" by blast
    then show ?thesis using r
      by (cases rule: sbo_copy_ctor_cases) auto
  next
    case False
    then have "sbo_copy_ctor other w = Undefined dead_object" by (simp add: sbo_copy_ctor_dead)
    with r show ?thesis by simp
  qed
next
  case (Assign this other)
  with assms have r: "sbo_assign this other w = Returns u w'" by simp
  show ?thesis
  proof (cases "\<exists>old. obj_at (inline_shapes w) this = Some (Object old)")
    case True
    then obtain old where old: "obj_at (inline_shapes w) this = Some (Object old)" by blast
    show ?thesis
    proof (cases "\<exists>m. obj_at (inline_shapes w) other = Some (Object m)")
      case True
      then obtain m where m: "obj_at (inline_shapes w) other = Some (Object m)" by blast
      show ?thesis
      proof (cases "this = other")
        case True
        with r show ?thesis by (simp add: sbo_assign_self)
      next
        case False
        from valueless_update [OF old, of "Some (Object m)"]
        have l: "length (filter valueless ((inline_shapes w)[this := Some (Object m)])) =
          length (filter valueless (inline_shapes w))" by simp
        from old m False show ?thesis using r l
          by (cases rule: sbo_assign_cases) auto
      qed
    next
      case False
      then have "\<forall>m. obj_at (inline_shapes w) other \<noteq> Some (Object m)" by simp
      from sbo_assign_dead_source [OF this, of this] r show ?thesis by auto
    qed
  next
    case False
    then have "sbo_assign this other w = Undefined dead_object"
      by (simp add: sbo_assign_dead_target)
    with r show ?thesis by simp
  qed
next
  case (Destroy this)
  with assms have r: "sbo_dtor this w = Returns u w'" by simp
  show ?thesis
  proof (cases "\<exists>m. obj_at (inline_shapes w) this = Some (Object m)")
    case True
    then obtain m where m: "obj_at (inline_shapes w) this = Some (Object m)" by blast
    from valueless_update [OF m, of None]
    have l: "length (filter valueless ((inline_shapes w)[this := None])) =
      length (filter valueless (inline_shapes w))"
      by simp
    from sbo_dtor_live [OF m] r l show ?thesis by auto
  next
    case False
    then have "sbo_dtor this w = Undefined dead_object" by (simp add: sbo_dtor_dead)
    with r show ?thesis by simp
  qed
next
  case (Serialize this)
  with assms show ?thesis by (auto split: sum.splits)
next
  case (Draw this)
  with assms show ?thesis by (auto split: sum.splits)
qed

text \<open>What a step that ends by an exception does to the counters.\<close>

lemma sbo_step_throws_counts:
  assumes "sbo_step op w = Throws e w'"
  shows "constructions w' = constructions w \<and> heap w' = heap w \<and>
    ((makes_box op \<and> destructions w' = destructions w \<and> live_models w' = live_models w \<and>
      length (filter valueless (inline_shapes w')) = length (filter valueless (inline_shapes w))) \<or>
     (is_assignment op \<and> destructions w' = Suc (destructions w) \<and>
      Suc (live_models w') = live_models w \<and>
      length (filter valueless (inline_shapes w')) =
        Suc (length (filter valueless (inline_shapes w)))))"
proof (cases op)
  case (Construct sh dr se M)
  with assms have r: "sbo_Shape sh dr se M w = Throws e w'"
    by (auto split: outcome.splits)
  show ?thesis
  proof (cases "fits M")
    case True
    then show ?thesis using r Construct
      by (cases rule: sbo_Shape_cases [of M sh dr se w]) (auto simp: live_models_def)
  next
    case False
    from sbo_Shape_rejected [OF this, of sh dr se w] r show ?thesis by auto
  qed
next
  case (Copy other)
  with assms have r: "sbo_copy_ctor other w = Throws e w'"
    by (auto split: outcome.splits)
  show ?thesis
  proof (cases "\<exists>m. obj_at (inline_shapes w) other = Some (Object m)")
    case True
    then obtain m where "obj_at (inline_shapes w) other = Some (Object m)" by blast
    then show ?thesis using r Copy
      by (cases rule: sbo_copy_ctor_cases) (auto simp: live_models_def)
  next
    case False
    then have "sbo_copy_ctor other w = Undefined dead_object" by (simp add: sbo_copy_ctor_dead)
    with r show ?thesis by simp
  qed
next
  case (Assign this other)
  with assms have r: "sbo_assign this other w = Throws e w'" by simp
  show ?thesis
  proof (cases "\<exists>old. obj_at (inline_shapes w) this = Some (Object old)")
    case True
    then obtain old where old: "obj_at (inline_shapes w) this = Some (Object old)" by blast
    show ?thesis
    proof (cases "\<exists>m. obj_at (inline_shapes w) other = Some (Object m)")
      case True
      then obtain m where m: "obj_at (inline_shapes w) other = Some (Object m)" by blast
      show ?thesis
      proof (cases "this = other")
        case True
        with r show ?thesis by (simp add: sbo_assign_self)
      next
        case False
        from valueless_update [OF old, of "Some Raw"]
        have l: "length (filter valueless ((inline_shapes w)[this := Some Raw])) =
          Suc (length (filter valueless (inline_shapes w)))" by simp
        from live_models_update [OF old, of "Some Raw"]
        have k: "Suc (length (filter holds_model ((inline_shapes w)[this := Some Raw]))) =
          live_models w" by simp
        from old m False show ?thesis using r l k Assign
          by (cases rule: sbo_assign_cases) (auto simp: live_models_def)
      qed
    next
      case False
      then have "\<forall>m. obj_at (inline_shapes w) other \<noteq> Some (Object m)" by simp
      from sbo_assign_dead_source [OF this, of this] r show ?thesis by auto
    qed
  next
    case False
    then have "sbo_assign this other w = Undefined dead_object"
      by (simp add: sbo_assign_dead_target)
    with r show ?thesis by simp
  qed
next
  case (Destroy this)
  with assms have r: "sbo_dtor this w = Throws e w'" by simp
  show ?thesis
  proof (cases "\<exists>m. obj_at (inline_shapes w) this = Some (Object m)")
    case True
    then obtain m where m: "obj_at (inline_shapes w) this = Some (Object m)" by blast
    from sbo_dtor_live [OF m] r show ?thesis by simp
  next
    case False
    then have "sbo_dtor this w = Undefined dead_object" by (simp add: sbo_dtor_dead)
    with r show ?thesis by simp
  qed
next
  case (Serialize this)
  with assms show ?thesis by (auto split: sum.splits)
next
  case (Draw this)
  with assms show ?thesis by (auto split: sum.splits)
qed

lemma sbo_steps_counts:
  "sbo_steps ops w = Some w' \<Longrightarrow>
   constructions w' =
     constructions w + returned makes_box ops w + returned is_assignment ops w \<and>
   destructions w' + length (filter valueless (inline_shapes w)) =
     destructions w + length (filter valueless (inline_shapes w')) +
     returned is_assignment ops w + returned is_destruction ops w \<and>
   live_models w' + length (filter valueless (inline_shapes w')) +
     returned is_destruction ops w =
     live_models w + length (filter valueless (inline_shapes w)) + returned makes_box ops w \<and>
   returned is_assignment ops w + length (filter valueless (inline_shapes w')) =
     length (filter is_assignment ops) + length (filter valueless (inline_shapes w)) \<and>
   returned is_destruction ops w = length (filter is_destruction ops) \<and>
   heap w' = heap w"
proof (induction ops arbitrary: w)
  case Nil
  then show ?case by simp
next
  case (Cons op ops)
  from Cons.prems obtain w1 where s: "world_after (sbo_step op w) = Some w1"
    and r: "sbo_steps ops w1 = Some w'"
    by (auto split: option.splits)
  note ih = Cons.IH [OF r]
  show ?case
  proof (cases "sbo_step op w")
    case (Returns u v)
    with s have v: "v = w1" by simp
    from Returns v have st: "sbo_step op w = Returns u w1" by simp
    from sbo_step_counts [OF st] sbo_step_returns_valueless [OF st] ih st
    show ?thesis by (cases op) simp_all
  next
    case (Throws e v)
    with s have v: "v = w1" by simp
    from Throws v have st: "sbo_step op w = Throws e w1" by simp
    from sbo_step_throws_counts [OF st] ih st
    show ?thesis by (cases op) auto
  next
    case (Undefined u)
    with s show ?thesis by simp
  next
    case (Rejected m)
    with s show ?thesis by simp
  qed
qed

lemma caught_then_assign_run:
  "sbo_steps caught_then_assign (init [True]) =
     Some \<lparr>inline_shapes = [None, None, None], heap_shapes = [], heap = [], faults = [],
           constructions = 3, destructions = 3\<rparr>"
  by (simp add: caught_then_assign_def make_two_circles_def sbo_Shape_def Let_def Model_ctor_def
      copy_ctor_def next_fault_def init_def small_layout_def buffersize_def alignment_def
      sbo_assign_def sbo_destroy_model_def sbo_pimpl_def sbo_clone_def Model_copy_ctor_def
      sbo_dtor_def obj_at_def)

lemma caught_then_assign_built:
  "returned makes_box caught_then_assign (init [True]) = 2"
  by (simp add: caught_then_assign_def make_two_circles_def sbo_Shape_def Let_def Model_ctor_def
      copy_ctor_def next_fault_def init_def small_layout_def buffersize_def alignment_def
      sbo_assign_def sbo_destroy_model_def sbo_pimpl_def sbo_clone_def Model_copy_ctor_def
      sbo_dtor_def obj_at_def)

text \<open>
  A run that builds two boxes, assigns one to the other and destroys both: two boxes have
  been constructed and destroyed, and the model type has gone through three constructions
  and three destructions.
\<close>

theorem assignment_adds_a_construction:
  "map_option constructions (sbo_run assign_and_destroy (init [])) = Some 3 \<and>
   map_option destructions (sbo_run assign_and_destroy (init [])) = Some 3 \<and>
   map_option inline_shapes (sbo_run assign_and_destroy (init [])) = Some [None, None] \<and>
   map_option constructions (sbo_run assign_and_destroy (init [])) \<noteq> Some 2 \<and>
   length (filter makes_box assign_and_destroy) = 2 \<and>
   length (filter is_destruction assign_and_destroy) = 2"
  by (simp add: assign_and_destroy_run)
     (simp add: assign_and_destroy_def make_two_circles_def)

text \<open>
  C8, as the code has it. The destructor of an inline shape that holds a model runs the
  destructor of that model exactly once and leaves the heap alone. Over every run of
  operations of the class, started in the empty world and ended with every shape
  destroyed, whether each operation returns or exceptions are raised and caught on the
  way: as many destructor calls of \<open>Shape\<close> have returned as boxes have been built (by
  a constructor or a copy constructor that returned); every copy assignment of the run has
  returned; the model type has gone through as many constructions as there were boxes
  built plus copy assignments made, and through equally many destructions (a copy
  assignment destroys the model of its target and constructs a clone in its place); and
  nothing was ever allocated.
\<close>

theorem balanced_construction_destruction:
  "(sbo_pimpl this w = Inr m \<longrightarrow>
      (\<exists>w'. sbo_dtor this w = Returns () w' \<and>
         destructions w' = Suc (destructions w) \<and> constructions w' = constructions w \<and>
         heap w' = heap w \<and> obj_at (inline_shapes w') this = None)) \<and>
   (sbo_run ops (init fs) = Some v \<and> (\<forall>b \<in> set (inline_shapes v). b = None) \<longrightarrow>
      length (inline_shapes v) = length (filter makes_box ops) \<and>
      length (filter is_destruction ops) = length (filter makes_box ops) \<and>
      constructions v = length (filter makes_box ops) + length (filter is_assignment ops) \<and>
      destructions v = length (filter makes_box ops) + length (filter is_assignment ops) \<and>
      heap v = []) \<and>
   (sbo_steps cops (init cfs) = Some cv \<and> (\<forall>b \<in> set (inline_shapes cv). b = None) \<longrightarrow>
      returned is_destruction cops (init cfs) = returned makes_box cops (init cfs) \<and>
      returned is_destruction cops (init cfs) = length (filter is_destruction cops) \<and>
      returned is_assignment cops (init cfs) = length (filter is_assignment cops) \<and>
      constructions cv =
        returned makes_box cops (init cfs) + length (filter is_assignment cops) \<and>
      destructions cv =
        returned makes_box cops (init cfs) + length (filter is_assignment cops) \<and>
      heap cv = [])"
proof (intro conjI impI)
  assume "sbo_pimpl this w = Inr m"
  then have m: "obj_at (inline_shapes w) this = Some (Object m)" by simp
  then have "this < length (inline_shapes w)" by (rule obj_at_Some_less)
  with sbo_dtor_live [OF m]
  show "\<exists>w'. sbo_dtor this w = Returns () w' \<and>
         destructions w' = Suc (destructions w) \<and> constructions w' = constructions w \<and>
         heap w' = heap w \<and> obj_at (inline_shapes w') this = None"
    by simp
next
  assume a: "sbo_run ops (init fs) = Some v \<and> (\<forall>b \<in> set (inline_shapes v). b = None)"
  then have "filter holds_model (inline_shapes v) = []"
    by (auto simp: filter_empty_conv)
  then have l: "live_models v = 0" by (simp add: live_models_def)
  from a have "sbo_run ops (init fs) = Some v" by simp
  from sbo_run_counts [OF this] l
  have c: "constructions v = length (filter makes_box ops) + length (filter is_assignment ops) \<and>
    destructions v = length (filter is_assignment ops) + length (filter is_destruction ops) \<and>
    length (filter is_destruction ops) = length (filter makes_box ops) \<and>
    length (inline_shapes v) = length (filter makes_box ops) \<and> heap v = []"
    by (simp add: init_def live_models_def)
  from c show "length (inline_shapes v) = length (filter makes_box ops)" by simp
  from c show "length (filter is_destruction ops) = length (filter makes_box ops)" by simp
  from c show "constructions v = length (filter makes_box ops) + length (filter is_assignment ops)"
    by simp
  from c show "destructions v = length (filter makes_box ops) + length (filter is_assignment ops)"
    by simp
  from c show "heap v = []" by simp
next
  assume a: "sbo_steps cops (init cfs) = Some cv \<and> (\<forall>b \<in> set (inline_shapes cv). b = None)"
  then have "filter holds_model (inline_shapes cv) = []"
    and r: "filter valueless (inline_shapes cv) = []"
    by (auto simp: filter_empty_conv)
  then have l: "live_models cv = 0" by (simp add: live_models_def)
  from a have "sbo_steps cops (init cfs) = Some cv" by simp
  from sbo_steps_counts [OF this] l r
  have c: "constructions cv =
      returned makes_box cops (init cfs) + returned is_assignment cops (init cfs) \<and>
    destructions cv =
      returned is_assignment cops (init cfs) + returned is_destruction cops (init cfs) \<and>
    returned is_destruction cops (init cfs) = returned makes_box cops (init cfs) \<and>
    returned is_assignment cops (init cfs) = length (filter is_assignment cops) \<and>
    returned is_destruction cops (init cfs) = length (filter is_destruction cops) \<and>
    heap cv = []"
    by (simp add: init_def live_models_def)
  from c show "returned is_destruction cops (init cfs) = returned makes_box cops (init cfs)"
    by simp
  from c show "returned is_destruction cops (init cfs) = length (filter is_destruction cops)"
    by simp
  from c show "returned is_assignment cops (init cfs) = length (filter is_assignment cops)"
    by simp
  from c show "constructions cv =
      returned makes_box cops (init cfs) + length (filter is_assignment cops)"
    by simp
  from c show "destructions cv =
      returned makes_box cops (init cfs) + length (filter is_assignment cops)"
    by simp
  from c show "heap cv = []" by simp
qed

theorem balanced_construction_destruction_witness:
  "sbo_pimpl 0 (two_circles []) = Inr model_a \<and>
   (\<exists>w'. sbo_dtor 0 (two_circles []) = Returns () w' \<and> destructions w' = 1 \<and>
      constructions w' = 2 \<and> heap w' = []) \<and>
   (\<exists>v. sbo_run assign_and_destroy (init []) = Some v \<and>
      (\<forall>b \<in> set (inline_shapes v). b = None) \<and>
      constructions v = 2 + 1 \<and> destructions v = 2 + 1 \<and> heap v = []) \<and>
   (\<exists>v. sbo_steps caught_then_assign (init [True]) = Some v \<and>
      (\<forall>b \<in> set (inline_shapes v). b = None) \<and>
      length (filter makes_box caught_then_assign) = 3 \<and>
      returned makes_box caught_then_assign (init [True]) = 2 \<and>
      length (filter is_assignment caught_then_assign) = 1 \<and>
      constructions v = 2 + 1 \<and> destructions v = 2 + 1 \<and> heap v = [])"
proof -
  let ?v = "\<lparr>inline_shapes = [None, None], heap_shapes = [], heap = [], faults = [],
           constructions = 3, destructions = 3\<rparr> :: (Circle_rep, item list) world"
  let ?c = "\<lparr>inline_shapes = [None, None, None], heap_shapes = [], heap = [], faults = [],
           constructions = 3, destructions = 3\<rparr> :: (Circle_rep, item list) world"
  have h1: "sbo_pimpl 0 (two_circles []) = Inr model_a" by simp
  have h2: "sbo_run assign_and_destroy (init []) = Some ?v \<and>
    (\<forall>b \<in> set (inline_shapes ?v). b = None)"
    by (simp add: assign_and_destroy_run)
  have k: "length (filter makes_box assign_and_destroy) = 2 \<and>
    length (filter is_assignment assign_and_destroy) = 1"
    by (simp add: assign_and_destroy_def make_two_circles_def)
  have h3: "sbo_steps caught_then_assign (init [True]) = Some ?c \<and>
    (\<forall>b \<in> set (inline_shapes ?c). b = None)"
    by (simp add: caught_then_assign_run)
  have k3: "length (filter makes_box caught_then_assign) = 3 \<and>
    returned makes_box caught_then_assign (init [True]) = 2 \<and>
    length (filter is_assignment caught_then_assign) = 1"
    by (simp add: caught_then_assign_built) (simp add: caught_then_assign_def make_two_circles_def)
  note inst = balanced_construction_destruction
    [of 0 "two_circles []" model_a assign_and_destroy "[]" ?v caught_then_assign "[True]" ?c]
  from inst h1 have d: "\<exists>w'. sbo_dtor 0 (two_circles []) = Returns () w' \<and>
    destructions w' = Suc (destructions (two_circles [])) \<and>
    constructions w' = constructions (two_circles []) \<and> heap w' = heap (two_circles [])"
    by blast
  then have d': "\<exists>w'. sbo_dtor 0 (two_circles []) = Returns () w' \<and> destructions w' = 1 \<and>
      constructions w' = 2 \<and> heap w' = []"
    by (simp add: two_circles_def)
  from inst h2 k have c2: "constructions ?v = 2 + 1 \<and> destructions ?v = 2 + 1 \<and> heap ?v = []"
    by simp
  from inst h3 have "constructions ?c =
      returned makes_box caught_then_assign (init [True]) +
      length (filter is_assignment caught_then_assign) \<and>
    destructions ?c =
      returned makes_box caught_then_assign (init [True]) +
      length (filter is_assignment caught_then_assign) \<and> heap ?c = []"
    by blast
  with k3 have c3: "constructions ?c = 2 + 1 \<and> destructions ?c = 2 + 1 \<and> heap ?c = []"
    by simp
  from h1 h2 d' c2 h3 k3 c3 show ?thesis by blast
qed

subsection \<open>Exclusive ownership in the heap variant\<close>

lemma obj_at_Cons: "obj_at (u # xs) a = (case a of 0 \<Rightarrow> u | Suc n \<Rightarrow> obj_at xs n)"
  by (simp add: obj_at_def split: nat.splits)

lemma set_pointers: "(p \<in> set (pointers hs)) = (\<exists>a. obj_at hs a = Some (Ptr p))"
proof (induction hs rule: pointers.induct)
  case 1
  then show ?case by (simp add: obj_at_def)
next
  case (2 q hs)
  show ?case
  proof
    assume "p \<in> set (pointers (Some (Ptr q) # hs))"
    then have "p = q \<or> (\<exists>a. obj_at hs a = Some (Ptr p))" using 2 by simp
    then show "\<exists>a. obj_at (Some (Ptr q) # hs) a = Some (Ptr p)"
    proof
      assume "p = q"
      then have "obj_at (Some (Ptr q) # hs) 0 = Some (Ptr p)" by (simp add: obj_at_Cons)
      then show ?thesis by blast
    next
      assume "\<exists>a. obj_at hs a = Some (Ptr p)"
      then obtain a where "obj_at hs a = Some (Ptr p)" by blast
      then have "obj_at (Some (Ptr q) # hs) (Suc a) = Some (Ptr p)" by (simp add: obj_at_Cons)
      then show ?thesis by blast
    qed
  next
    assume "\<exists>a. obj_at (Some (Ptr q) # hs) a = Some (Ptr p)"
    then obtain a where a: "obj_at (Some (Ptr q) # hs) a = Some (Ptr p)" by blast
    then show "p \<in> set (pointers (Some (Ptr q) # hs))"
      using 2 by (cases a) (auto simp: obj_at_Cons)
  qed
next
  case (4 hs)
  show ?case
  proof
    assume "p \<in> set (pointers (None # hs))"
    then obtain a where "obj_at hs a = Some (Ptr p)" using 4 by auto
    then have "obj_at (None # hs) (Suc a) = Some (Ptr p)" by (simp add: obj_at_Cons)
    then show "\<exists>a. obj_at (None # hs) a = Some (Ptr p)" by blast
  next
    assume "\<exists>a. obj_at (None # hs) a = Some (Ptr p)"
    then obtain a where a: "obj_at (None # hs) a = Some (Ptr p)" by blast
    then show "p \<in> set (pointers (None # hs))"
      using 4 by (cases a) (auto simp: obj_at_Cons)
  qed
next
  case (3 hs)
  show ?case
  proof
    assume "p \<in> set (pointers (Some nullptr # hs))"
    then obtain a where "obj_at hs a = Some (Ptr p)" using 3 by auto
    then have "obj_at (Some nullptr # hs) (Suc a) = Some (Ptr p)" by (simp add: obj_at_Cons)
    then show "\<exists>a. obj_at (Some nullptr # hs) a = Some (Ptr p)" by blast
  next
    assume "\<exists>a. obj_at (Some nullptr # hs) a = Some (Ptr p)"
    then obtain a where a: "obj_at (Some nullptr # hs) a = Some (Ptr p)" by blast
    then show "p \<in> set (pointers (Some nullptr # hs))"
      using 3 by (cases a) (auto simp: obj_at_Cons)
  qed
qed

lemma unshared_Cons:
  "unshared (u # hs) =
     (unshared hs \<and> (\<forall>p. u = Some (Ptr p) \<longrightarrow> (\<forall>a. obj_at hs a \<noteq> Some (Ptr p))))"
proof
  assume u: "unshared (u # hs)"
  have "unshared hs"
    unfolding unshared_def
  proof (intro allI impI)
    fix a b p
    assume "obj_at hs a = Some (Ptr p) \<and> obj_at hs b = Some (Ptr p)"
    then have "obj_at (u # hs) (Suc a) = Some (Ptr p) \<and> obj_at (u # hs) (Suc b) = Some (Ptr p)"
      by (simp add: obj_at_Cons)
    with u have "Suc a = Suc b" unfolding unshared_def by blast
    then show "a = b" by simp
  qed
  moreover have "\<forall>p. u = Some (Ptr p) \<longrightarrow> (\<forall>a. obj_at hs a \<noteq> Some (Ptr p))"
  proof (intro allI impI notI)
    fix p a
    assume "u = Some (Ptr p)" and "obj_at hs a = Some (Ptr p)"
    then have "obj_at (u # hs) 0 = Some (Ptr p) \<and> obj_at (u # hs) (Suc a) = Some (Ptr p)"
      by (simp add: obj_at_Cons)
    with u have "0 = Suc a" unfolding unshared_def by blast
    then show False by simp
  qed
  ultimately show "unshared hs \<and> (\<forall>p. u = Some (Ptr p) \<longrightarrow> (\<forall>a. obj_at hs a \<noteq> Some (Ptr p)))"
    by simp
next
  assume r: "unshared hs \<and> (\<forall>p. u = Some (Ptr p) \<longrightarrow> (\<forall>a. obj_at hs a \<noteq> Some (Ptr p)))"
  show "unshared (u # hs)"
    unfolding unshared_def
  proof (intro allI impI)
    fix a b p
    assume h: "obj_at (u # hs) a = Some (Ptr p) \<and> obj_at (u # hs) b = Some (Ptr p)"
    show "a = b"
    proof (cases a)
      case 0
      show ?thesis
      proof (cases b)
        case 0
        with \<open>a = 0\<close> show ?thesis by simp
      next
        case (Suc n)
        with h \<open>a = 0\<close> have "u = Some (Ptr p)" and "obj_at hs n = Some (Ptr p)"
          by (simp_all add: obj_at_Cons)
        with r show ?thesis by blast
      qed
    next
      case (Suc k)
      show ?thesis
      proof (cases b)
        case 0
        with h Suc have "u = Some (Ptr p)" and "obj_at hs k = Some (Ptr p)"
          by (simp_all add: obj_at_Cons)
        with r show ?thesis by blast
      next
        case n: (Suc n)
        with h Suc have "obj_at hs k = Some (Ptr p) \<and> obj_at hs n = Some (Ptr p)"
          by (simp add: obj_at_Cons)
        moreover from r have "unshared hs" by simp
        ultimately have "k = n" unfolding unshared_def by blast
        with Suc n show ?thesis by simp
      qed
    qed
  qed
qed

lemma distinct_pointers: "distinct (pointers hs) = unshared hs"
proof (induction hs rule: pointers.induct)
  case 1
  then show ?case by (simp add: unshared_def obj_at_def)
next
  case (2 q hs)
  then show ?case by (simp add: unshared_Cons set_pointers) blast
next
  case (4 hs)
  then show ?case by (simp add: unshared_Cons)
next
  case (3 hs)
  then show ?case by (simp add: unshared_Cons)
qed

lemma owned_iff:
  "owned w =
     ((\<forall>a b p. obj_at (heap_shapes w) a = Some (Ptr p) \<and> obj_at (heap_shapes w) b = Some (Ptr p)
          \<longrightarrow> a = b) \<and>
      (\<forall>a p. obj_at (heap_shapes w) a = Some (Ptr p) \<longrightarrow> (\<exists>m. obj_at (heap w) p = Some m)))"
proof -
  have "list_all (\<lambda>p. obj_at (heap w) p \<noteq> None) (pointers (heap_shapes w)) =
    (\<forall>a p. obj_at (heap_shapes w) a = Some (Ptr p) \<longrightarrow> (\<exists>m. obj_at (heap w) p = Some m))"
    unfolding list_all_iff
  proof
    assume l: "\<forall>p\<in>set (pointers (heap_shapes w)). obj_at (heap w) p \<noteq> None"
    show "\<forall>a p. obj_at (heap_shapes w) a = Some (Ptr p) \<longrightarrow> (\<exists>m. obj_at (heap w) p = Some m)"
    proof (intro allI impI)
      fix a p
      assume "obj_at (heap_shapes w) a = Some (Ptr p)"
      then have "p \<in> set (pointers (heap_shapes w))" unfolding set_pointers by blast
      with l have "obj_at (heap w) p \<noteq> None" by blast
      then show "\<exists>m. obj_at (heap w) p = Some m" by simp
    qed
  next
    assume r: "\<forall>a p. obj_at (heap_shapes w) a = Some (Ptr p) \<longrightarrow> (\<exists>m. obj_at (heap w) p = Some m)"
    show "\<forall>p\<in>set (pointers (heap_shapes w)). obj_at (heap w) p \<noteq> None"
    proof
      fix p
      assume "p \<in> set (pointers (heap_shapes w))"
      then obtain a where "obj_at (heap_shapes w) a = Some (Ptr p)" unfolding set_pointers by blast
      with r obtain m where "obj_at (heap w) p = Some m" by blast
      then show "obj_at (heap w) p \<noteq> None" by simp
    qed
  qed
  then show ?thesis
    by (simp add: owned_def distinct_pointers unshared_def)
qed


lemma owned_faults [simp]: "owned (w\<lparr>faults := fs\<rparr>) = owned w"
  by (simp add: owned_def)

lemma owned_failed_alloc:
  assumes "owned w"
  shows "owned (w\<lparr>heap := heap w @ [None], faults := fs\<rparr>)"
proof -
  from assms have l: "\<And>a p. obj_at (heap_shapes w) a = Some (Ptr p) \<Longrightarrow> \<exists>m. obj_at (heap w) p = Some m"
    unfolding owned_iff by blast
  have fresh: "\<And>a. obj_at (heap_shapes w) a \<noteq> Some (Ptr (length (heap w)))"
  proof
    fix a assume "obj_at (heap_shapes w) a = Some (Ptr (length (heap w)))"
    from l [OF this] show False by simp
  qed
  from assms fresh show ?thesis
    by (simp add: owned_iff)
qed

text \<open>A new shape that owns a new block.\<close>

lemma owned_new_shape:
  assumes "owned w"
  shows "owned (w\<lparr>heap_shapes := heap_shapes w @ [Some (Ptr (length (heap w)))],
                   heap := heap w @ [Some m], faults := fs, constructions := c\<rparr>)"
proof -
  from assms have u: "\<And>a b p. obj_at (heap_shapes w) a = Some (Ptr p) \<Longrightarrow>
      obj_at (heap_shapes w) b = Some (Ptr p) \<Longrightarrow> a = b"
    and l: "\<And>a p. obj_at (heap_shapes w) a = Some (Ptr p) \<Longrightarrow> \<exists>m. obj_at (heap w) p = Some m"
    unfolding owned_iff by blast+
  have fresh: "\<And>a. obj_at (heap_shapes w) a \<noteq> Some (Ptr (length (heap w)))"
  proof
    fix a assume "obj_at (heap_shapes w) a = Some (Ptr (length (heap w)))"
    from l [OF this] show False by simp
  qed
  show ?thesis
    unfolding owned_iff
  proof (intro conjI allI impI)
    fix a b p
    assume "obj_at (heap_shapes (w\<lparr>heap_shapes := heap_shapes w @ [Some (Ptr (length (heap w)))],
                   heap := heap w @ [Some m], faults := fs, constructions := c\<rparr>)) a = Some (Ptr p) \<and>
      obj_at (heap_shapes (w\<lparr>heap_shapes := heap_shapes w @ [Some (Ptr (length (heap w)))],
                   heap := heap w @ [Some m], faults := fs, constructions := c\<rparr>)) b = Some (Ptr p)"
    then show "a = b" using u fresh by (auto split: if_splits)
  next
    fix a p
    assume "obj_at (heap_shapes (w\<lparr>heap_shapes := heap_shapes w @ [Some (Ptr (length (heap w)))],
                   heap := heap w @ [Some m], faults := fs, constructions := c\<rparr>)) a = Some (Ptr p)"
    then show "\<exists>m'. obj_at (heap (w\<lparr>heap_shapes := heap_shapes w @ [Some (Ptr (length (heap w)))],
                   heap := heap w @ [Some m], faults := fs, constructions := c\<rparr>)) p = Some m'"
      using l fresh by (auto split: if_splits)
  qed
qed


lemma owned_unshared:
  "owned w \<Longrightarrow> obj_at (heap_shapes w) a = Some (Ptr p) \<Longrightarrow>
   obj_at (heap_shapes w) b = Some (Ptr p) \<Longrightarrow> a = b"
  unfolding owned_iff by blast

lemma owned_live:
  "owned w \<Longrightarrow> obj_at (heap_shapes w) a = Some (Ptr p) \<Longrightarrow> \<exists>m. obj_at (heap w) p = Some m"
  unfolding owned_iff by blast

lemma owned_not_fresh:
  "owned w \<Longrightarrow> obj_at (heap_shapes w) a \<noteq> Some (Ptr (length (heap w)))"
proof
  assume "owned w" and "obj_at (heap_shapes w) a = Some (Ptr (length (heap w)))"
  from owned_live [OF this] show False by simp
qed

lemma ownedI:
  assumes "\<And>a b p. obj_at (heap_shapes w) a = Some (Ptr p) \<Longrightarrow>
      obj_at (heap_shapes w) b = Some (Ptr p) \<Longrightarrow> a = b"
    and "\<And>a p. obj_at (heap_shapes w) a = Some (Ptr p) \<Longrightarrow> \<exists>m. obj_at (heap w) p = Some m"
  shows "owned w"
  unfolding owned_iff using assms by blast

lemma owned_assign_null:
  assumes o: "owned w" and t: "obj_at (heap_shapes w) this = Some nullptr"
  shows "owned (w\<lparr>heap_shapes := (heap_shapes w)[this := Some (Ptr (length (heap w)))] @ [None],
                   heap := heap w @ [Some m], faults := fs, constructions := c\<rparr>)"
proof (rule ownedI)
  fix a b p
  assume "obj_at (heap_shapes (w\<lparr>heap_shapes := (heap_shapes w)[this := Some (Ptr (length (heap w)))] @ [None],
                   heap := heap w @ [Some m], faults := fs, constructions := c\<rparr>)) a = Some (Ptr p)"
    and "obj_at (heap_shapes (w\<lparr>heap_shapes := (heap_shapes w)[this := Some (Ptr (length (heap w)))] @ [None],
                   heap := heap w @ [Some m], faults := fs, constructions := c\<rparr>)) b = Some (Ptr p)"
  then show "a = b"
    using owned_unshared [OF o] owned_not_fresh [OF o]
    by (auto split: if_splits)
next
  fix a p
  assume "obj_at (heap_shapes (w\<lparr>heap_shapes := (heap_shapes w)[this := Some (Ptr (length (heap w)))] @ [None],
                   heap := heap w @ [Some m], faults := fs, constructions := c\<rparr>)) a = Some (Ptr p)"
  then show "\<exists>m'. obj_at (heap (w\<lparr>heap_shapes := (heap_shapes w)[this := Some (Ptr (length (heap w)))] @ [None],
                   heap := heap w @ [Some m], faults := fs, constructions := c\<rparr>)) p = Some m'"
    using owned_live [OF o] owned_not_fresh [OF o]
    by (auto split: if_splits)
qed

lemma owned_assign_live:
  assumes o: "owned w" and t: "obj_at (heap_shapes w) this = Some (Ptr q)"
  shows "owned (w\<lparr>heap_shapes := (heap_shapes w)[this := Some (Ptr (length (heap w)))] @ [None],
                   heap := (heap w)[q := None] @ [Some m], faults := fs, constructions := c,
                   destructions := d\<rparr>)"
proof (rule ownedI)
  fix a b p
  assume "obj_at (heap_shapes (w\<lparr>heap_shapes := (heap_shapes w)[this := Some (Ptr (length (heap w)))] @ [None],
                   heap := (heap w)[q := None] @ [Some m], faults := fs, constructions := c,
                   destructions := d\<rparr>)) a = Some (Ptr p)"
    and "obj_at (heap_shapes (w\<lparr>heap_shapes := (heap_shapes w)[this := Some (Ptr (length (heap w)))] @ [None],
                   heap := (heap w)[q := None] @ [Some m], faults := fs, constructions := c,
                   destructions := d\<rparr>)) b = Some (Ptr p)"
  then show "a = b"
    using owned_unshared [OF o] owned_not_fresh [OF o]
    by (auto split: if_splits)
next
  fix a p
  assume "obj_at (heap_shapes (w\<lparr>heap_shapes := (heap_shapes w)[this := Some (Ptr (length (heap w)))] @ [None],
                   heap := (heap w)[q := None] @ [Some m], faults := fs, constructions := c,
                   destructions := d\<rparr>)) a = Some (Ptr p)"
  then show "\<exists>m'. obj_at (heap (w\<lparr>heap_shapes := (heap_shapes w)[this := Some (Ptr (length (heap w)))] @ [None],
                   heap := (heap w)[q := None] @ [Some m], faults := fs, constructions := c,
                   destructions := d\<rparr>)) p = Some m'"
    using owned_live [OF o] owned_not_fresh [OF o] owned_unshared [OF o _ t]
    by (auto split: if_splits dest: obj_at_Some_less)
qed


lemma owned_move_ctor:
  assumes o: "owned w" and t: "obj_at (heap_shapes w) other = Some p"
  shows "owned (w\<lparr>heap_shapes := (heap_shapes w)[other := Some nullptr] @ [Some p]\<rparr>)"
proof (rule ownedI)
  fix a b q
  assume "obj_at (heap_shapes (w\<lparr>heap_shapes := (heap_shapes w)[other := Some nullptr] @ [Some p]\<rparr>)) a = Some (Ptr q)"
    and "obj_at (heap_shapes (w\<lparr>heap_shapes := (heap_shapes w)[other := Some nullptr] @ [Some p]\<rparr>)) b = Some (Ptr q)"
  then show "a = b"
    using owned_unshared [OF o] t
    by (auto split: if_splits dest: obj_at_Some_less)
next
  fix a q
  assume "obj_at (heap_shapes (w\<lparr>heap_shapes := (heap_shapes w)[other := Some nullptr] @ [Some p]\<rparr>)) a = Some (Ptr q)"
  then show "\<exists>m'. obj_at (heap (w\<lparr>heap_shapes := (heap_shapes w)[other := Some nullptr] @ [Some p]\<rparr>)) q = Some m'"
    using owned_live [OF o] t
    by (auto split: if_splits)
qed

lemma owned_move_assign_null:
  assumes o: "owned w" and s: "obj_at (heap_shapes w) other = Some p"
    and t: "obj_at (heap_shapes w) this = Some nullptr" and ne: "this \<noteq> other"
  shows "owned (w\<lparr>heap_shapes := (heap_shapes w)[other := Some nullptr, this := Some p]\<rparr>)"
proof (rule ownedI)
  fix a b q
  assume "obj_at (heap_shapes (w\<lparr>heap_shapes := (heap_shapes w)[other := Some nullptr, this := Some p]\<rparr>)) a = Some (Ptr q)"
    and "obj_at (heap_shapes (w\<lparr>heap_shapes := (heap_shapes w)[other := Some nullptr, this := Some p]\<rparr>)) b = Some (Ptr q)"
  then show "a = b"
    using owned_unshared [OF o] s t ne
    by (auto split: if_splits dest: obj_at_Some_less)
next
  fix a q
  assume "obj_at (heap_shapes (w\<lparr>heap_shapes := (heap_shapes w)[other := Some nullptr, this := Some p]\<rparr>)) a = Some (Ptr q)"
  then show "\<exists>m'. obj_at (heap (w\<lparr>heap_shapes := (heap_shapes w)[other := Some nullptr, this := Some p]\<rparr>)) q = Some m'"
    using owned_live [OF o] s t ne
    by (auto split: if_splits)
qed

lemma owned_move_assign_live:
  assumes o: "owned w" and s: "obj_at (heap_shapes w) other = Some p"
    and t: "obj_at (heap_shapes w) this = Some (Ptr r)" and ne: "this \<noteq> other"
  shows "owned (w\<lparr>heap_shapes := (heap_shapes w)[other := Some nullptr, this := Some p],
                   heap := (heap w)[r := None], destructions := d\<rparr>)"
proof -
  let ?hs = "(heap_shapes w)[other := Some nullptr, this := Some p]"
  from s t have lt: "other < length (heap_shapes w)" "this < length (heap_shapes w)"
    by (auto dest: obj_at_Some_less)
  have src: "\<And>a q. obj_at ?hs a = Some (Ptr q) \<Longrightarrow>
      (a = this \<and> obj_at (heap_shapes w) other = Some (Ptr q)) \<or>
      (a \<noteq> this \<and> a \<noteq> other \<and> obj_at (heap_shapes w) a = Some (Ptr q))"
  proof -
    fix a q
    assume h: "obj_at ?hs a = Some (Ptr q)"
    show "(a = this \<and> obj_at (heap_shapes w) other = Some (Ptr q)) \<or>
      (a \<noteq> this \<and> a \<noteq> other \<and> obj_at (heap_shapes w) a = Some (Ptr q))"
    proof (cases "a = this")
      case True
      with h lt have "p = Ptr q" by simp
      with s True show ?thesis by simp
    next
      case False
      with h lt have "a \<noteq> other" by (auto split: if_splits)
      with False h lt show ?thesis by simp
    qed
  qed
  show ?thesis
  proof (rule ownedI)
    fix a b q
    assume "obj_at (heap_shapes (w\<lparr>heap_shapes := ?hs, heap := (heap w)[r := None],
        destructions := d\<rparr>)) a = Some (Ptr q)"
      and "obj_at (heap_shapes (w\<lparr>heap_shapes := ?hs, heap := (heap w)[r := None],
        destructions := d\<rparr>)) b = Some (Ptr q)"
    then have "obj_at ?hs a = Some (Ptr q)" and "obj_at ?hs b = Some (Ptr q)" by simp_all
    from src [OF this(1)] src [OF this(2)] show "a = b"
      using owned_unshared [OF o] by blast
  next
    fix a q
    assume "obj_at (heap_shapes (w\<lparr>heap_shapes := ?hs, heap := (heap w)[r := None],
        destructions := d\<rparr>)) a = Some (Ptr q)"
    then have "obj_at ?hs a = Some (Ptr q)" by simp
    from src [OF this] ne have "\<exists>c. c \<noteq> this \<and> obj_at (heap_shapes w) c = Some (Ptr q)"
      by auto
    then obtain c where c: "c \<noteq> this" "obj_at (heap_shapes w) c = Some (Ptr q)"
      by blast
    from owned_unshared [OF o c(2) ] t c(1) have "q \<noteq> r" by blast
    moreover from owned_live [OF o c(2)] obtain m where "obj_at (heap w) q = Some m" by blast
    ultimately have "obj_at ((heap w)[r := None]) q = Some m" by simp
    then show "\<exists>m'. obj_at (heap (w\<lparr>heap_shapes := ?hs, heap := (heap w)[r := None],
        destructions := d\<rparr>)) q = Some m'"
      by simp
  qed
qed

lemma owned_dtor_null:
  assumes o: "owned w"
  shows "owned (w\<lparr>heap_shapes := (heap_shapes w)[this := None]\<rparr>)"
proof (rule ownedI)
  fix a b q
  assume "obj_at (heap_shapes (w\<lparr>heap_shapes := (heap_shapes w)[this := None]\<rparr>)) a = Some (Ptr q)"
    and "obj_at (heap_shapes (w\<lparr>heap_shapes := (heap_shapes w)[this := None]\<rparr>)) b = Some (Ptr q)"
  then show "a = b"
    using owned_unshared [OF o]
    by (auto split: if_splits)
next
  fix a q
  assume "obj_at (heap_shapes (w\<lparr>heap_shapes := (heap_shapes w)[this := None]\<rparr>)) a = Some (Ptr q)"
  then show "\<exists>m'. obj_at (heap (w\<lparr>heap_shapes := (heap_shapes w)[this := None]\<rparr>)) q = Some m'"
    using owned_live [OF o]
    by (auto split: if_splits)
qed

lemma owned_dtor_live:
  assumes o: "owned w" and t: "obj_at (heap_shapes w) this = Some (Ptr r)"
  shows "owned (w\<lparr>heap_shapes := (heap_shapes w)[this := None],
                   heap := (heap w)[r := None], destructions := d\<rparr>)"
proof (rule ownedI)
  fix a b q
  assume "obj_at (heap_shapes (w\<lparr>heap_shapes := (heap_shapes w)[this := None],
                   heap := (heap w)[r := None], destructions := d\<rparr>)) a = Some (Ptr q)"
    and "obj_at (heap_shapes (w\<lparr>heap_shapes := (heap_shapes w)[this := None],
                   heap := (heap w)[r := None], destructions := d\<rparr>)) b = Some (Ptr q)"
  then show "a = b"
    using owned_unshared [OF o]
    by (auto split: if_splits)
next
  fix a q
  assume "obj_at (heap_shapes (w\<lparr>heap_shapes := (heap_shapes w)[this := None],
                   heap := (heap w)[r := None], destructions := d\<rparr>)) a = Some (Ptr q)"
  then show "\<exists>m'. obj_at (heap (w\<lparr>heap_shapes := (heap_shapes w)[this := None],
                   heap := (heap w)[r := None], destructions := d\<rparr>)) q = Some m'"
    using owned_live [OF o] owned_unshared [OF o _ t]
    by (auto split: if_splits dest: obj_at_Some_less)
qed

lemma heap_model_transfer:
  assumes "heap_model b w = Inr m"
    and "\<And>p. obj_at (heap_shapes w) b = Some (Ptr p) \<Longrightarrow>
      obj_at (heap_shapes w') b = Some (Ptr p) \<and> obj_at (heap w') p = obj_at (heap w) p"
  shows "heap_model b w' = Inr m"
proof -
  from assms(1) obtain p where p: "obj_at (heap_shapes w) b = Some (Ptr p)" "obj_at (heap w) p = Some m"
    by (auto simp: heap_model_Inr)
  from assms(2) [OF p(1)] p(2) show ?thesis
    by (auto simp: heap_model_Inr)
qed

text \<open>Shapes that are not touched keep their model when a block is appended.\<close>

lemma heap_model_grow:
  assumes "heap_model b w = Inr m"
    and "heap_shapes w' = heap_shapes w @ us \<or> heap_shapes w' = heap_shapes w"
    and "heap w' = heap w @ vs \<or> heap w' = heap w"
  shows "heap_model b w' = Inr m"
proof (rule heap_model_transfer [OF assms(1)])
  fix p
  assume p: "obj_at (heap_shapes w) b = Some (Ptr p)"
  then have b: "b < length (heap_shapes w)" by (rule obj_at_Some_less)
  from assms(1) p have "\<exists>m. obj_at (heap w) p = Some m" by (auto simp: heap_model_Inr)
  then have pl: "p < length (heap w)" by (auto dest: obj_at_Some_less)
  from assms(2) b have "obj_at (heap_shapes w') b = obj_at (heap_shapes w) b"
    by (auto simp: obj_at_def nth_append)
  moreover from assms(3) pl have "obj_at (heap w') p = obj_at (heap w) p"
    by (auto simp: obj_at_def nth_append)
  ultimately show "obj_at (heap_shapes w') b = Some (Ptr p) \<and> obj_at (heap w') p = obj_at (heap w) p"
    using p by simp
qed

subsection \<open>What one operation of the heap variant leaves alone\<close>

lemma heap_step_construct:
  assumes o: "owned w" and s: "world_after (heap_step (HConstruct sh dr se) w) = Some w'"
  shows "owned w' \<and> (\<forall>b m. heap_model b w = Inr m \<longrightarrow> heap_model b w' = Inr m)"
proof (cases rule: heap_Shape_cases [of sh dr se w])
  case (bad_alloc fs)
  with s have "w' = w\<lparr>faults := fs\<rparr>" by simp
  with o show ?thesis by (auto intro: heap_model_grow)
next
  case (throws fs)
  with s have w': "w' = w\<lparr>heap := heap w @ [None], faults := fs\<rparr>" by simp
  with owned_failed_alloc [OF o, where fs = fs] have "owned w'" by simp
  with w' show ?thesis by (auto intro: heap_model_grow)
next
  case (returns fs)
  with s have w': "w' = w\<lparr>heap_shapes := heap_shapes w @ [Some (Ptr (length (heap w)))],
              heap := heap w @ [Some \<lparr>shape = sh, drawer = dr, serializer = se\<rparr>],
              faults := fs, constructions := Suc (constructions w)\<rparr>" by simp
  with o have "owned w'" by (simp add: owned_new_shape)
  with w' show ?thesis by (auto intro: heap_model_grow)
qed

lemma heap_step_copy:
  assumes o: "owned w" and s: "world_after (heap_step (HCopy other) w) = Some w'"
  shows "owned w' \<and> (\<forall>b m. heap_model b w = Inr m \<longrightarrow> heap_model b w' = Inr m)"
proof (cases "heap_model other w")
  case (Inl u)
  then have "heap_copy_ctor other w = Undefined u" by (rule heap_copy_ctor_no_model)
  with s show ?thesis by simp
next
  case (Inr m0)
  then show ?thesis
  proof (cases rule: heap_copy_ctor_cases)
    case (bad_alloc fs)
    with s have "w' = w\<lparr>faults := fs\<rparr>" by simp
    with o show ?thesis by (auto intro: heap_model_grow)
  next
    case (throws fs)
    with s have w': "w' = w\<lparr>heap := heap w @ [None], faults := fs\<rparr>" by simp
    with owned_failed_alloc [OF o, where fs = fs] have "owned w'" by simp
    with w' show ?thesis by (auto intro: heap_model_grow)
  next
    case (returns fs)
    with s have w': "w' = w\<lparr>heap_shapes := heap_shapes w @ [Some (Ptr (length (heap w)))],
                heap := heap w @ [Some m0], faults := fs,
                constructions := Suc (constructions w)\<rparr>" by simp
    with o have "owned w'" by (simp add: owned_new_shape)
    with w' show ?thesis by (auto intro: heap_model_grow)
  qed
qed


lemma heap_assign_dead_target:
  "obj_at (heap_shapes w) this = None \<Longrightarrow> heap_assign this other w = Undefined dead_object"
  by (simp add: heap_assign_def heap_pimpl_None)

lemma heap_assign_no_model:
  "obj_at (heap_shapes w) this = Some p \<Longrightarrow> heap_model other w = Inl u \<Longrightarrow>
   heap_assign this other w = Undefined u"
  by (simp add: heap_assign_def heap_pimpl_Some heap_copy_ctor_no_model)

lemma heap_step_assign:
  assumes o: "owned w" and s: "world_after (heap_step (HAssign this other) w) = Some w'"
  shows "owned w' \<and>
    (\<forall>b m. heap_model b w = Inr m \<and> b \<noteq> this \<longrightarrow> heap_model b w' = Inr m)"
proof (cases "obj_at (heap_shapes w) this")
  case None
  then have "heap_assign this other w = Undefined dead_object" by (rule heap_assign_dead_target)
  with s show ?thesis by simp
next
  case (Some p)
  then have lt: "this < length (heap_shapes w)" by (rule obj_at_Some_less)
  show ?thesis
  proof (cases "heap_model other w")
    case (Inl u)
    with Some have "heap_assign this other w = Undefined u" by (rule heap_assign_no_model)
    with s show ?thesis by simp
  next
    case (Inr m0)
    have p: "p = nullptr \<or> (\<exists>a old. p = Ptr a \<and> obj_at (heap w) a = Some old)"
    proof (cases p)
      case nullptr
      then show ?thesis by simp
    next
      case (Ptr a)
      with Some owned_live [OF o] show ?thesis by blast
    qed
    from Some Inr p show ?thesis
    proof (cases rule: heap_assign_cases)
      case (bad_alloc fs)
      with s have "w' = w\<lparr>faults := fs\<rparr>" by simp
      with o show ?thesis by (auto intro: heap_model_grow)
    next
      case (throws fs)
      with s have w': "w' = w\<lparr>heap := heap w @ [None], faults := fs\<rparr>" by simp
      with owned_failed_alloc [OF o, where fs = fs] have "owned w'" by simp
      with w' show ?thesis by (auto intro: heap_model_grow)
    next
      case (returns_null fs)
      with s have w': "w' = w\<lparr>heap_shapes := (heap_shapes w)[this := Some (Ptr (length (heap w)))] @ [None],
              heap := heap w @ [Some m0], faults := fs,
              constructions := Suc (constructions w)\<rparr>" by simp
      from Some returns_null(1) have "obj_at (heap_shapes w) this = Some nullptr" by simp
      from owned_assign_null [OF o this, where m = m0 and fs = fs and c = "Suc (constructions w)"] w'
      have ow: "owned w'" by simp
      have "\<forall>b m. heap_model b w = Inr m \<and> b \<noteq> this \<longrightarrow> heap_model b w' = Inr m"
      proof (intro allI impI)
        fix b m
        assume b: "heap_model b w = Inr m \<and> b \<noteq> this"
        then have hm: "heap_model b w = Inr m" by simp
        show "heap_model b w' = Inr m"
        proof (rule heap_model_transfer [OF hm])
          fix q
          assume q: "obj_at (heap_shapes w) b = Some (Ptr q)"
          then have "b < length (heap_shapes w)" by (rule obj_at_Some_less)
          moreover from owned_live [OF o q] have "q < length (heap w)"
            by (auto dest: obj_at_Some_less)
          ultimately show "obj_at (heap_shapes w') b = Some (Ptr q) \<and>
            obj_at (heap w') q = obj_at (heap w) q"
            using b q w' by simp
        qed
      qed
      with ow show ?thesis by simp
    next
      case (returns_live fs a old)
      with s have w': "w' = w\<lparr>heap_shapes := (heap_shapes w)[this := Some (Ptr (length (heap w)))] @ [None],
              heap := (heap w)[a := None] @ [Some m0], faults := fs,
              constructions := Suc (constructions w), destructions := Suc (destructions w)\<rparr>"
        by simp
      from Some returns_live(1) have t: "obj_at (heap_shapes w) this = Some (Ptr a)" by simp
      from owned_assign_live [OF o t, where m = m0 and fs = fs and c = "Suc (constructions w)"
          and d = "Suc (destructions w)"] w'
      have ow: "owned w'" by simp
      have "\<forall>b m. heap_model b w = Inr m \<and> b \<noteq> this \<longrightarrow> heap_model b w' = Inr m"
      proof (intro allI impI)
        fix b m
        assume b: "heap_model b w = Inr m \<and> b \<noteq> this"
        then have hm: "heap_model b w = Inr m" by simp
        show "heap_model b w' = Inr m"
        proof (rule heap_model_transfer [OF hm])
          fix q
          assume q: "obj_at (heap_shapes w) b = Some (Ptr q)"
          then have "b < length (heap_shapes w)" by (rule obj_at_Some_less)
          moreover from owned_live [OF o q] have "q < length (heap w)"
            by (auto dest: obj_at_Some_less)
          moreover have "q \<noteq> a"
          proof
            assume "q = a"
            with q have "obj_at (heap_shapes w) b = Some (Ptr a)" by simp
            from owned_unshared [OF o this t] b show False by simp
          qed
          ultimately show "obj_at (heap_shapes w') b = Some (Ptr q) \<and>
            obj_at (heap w') q = obj_at (heap w) q"
            using b q w' by simp
        qed
      qed
      with ow show ?thesis by simp
    qed
  qed
qed


lemma heap_move_ctor_dead:
  "obj_at (heap_shapes w) other = None \<Longrightarrow> heap_move_ctor other w = Undefined dead_object"
  by (simp add: heap_move_ctor_def heap_pimpl_None)

lemma heap_step_move:
  assumes o: "owned w" and s: "world_after (heap_step (HMove other) w) = Some w'"
  shows "owned w' \<and>
    (\<forall>b m. heap_model b w = Inr m \<and> b \<noteq> other \<longrightarrow> heap_model b w' = Inr m)"
proof (cases "obj_at (heap_shapes w) other")
  case None
  then have "heap_move_ctor other w = Undefined dead_object" by (rule heap_move_ctor_dead)
  with s show ?thesis by simp
next
  case (Some p)
  from heap_move_ctor_live [OF Some] s
  have w': "w' = w\<lparr>heap_shapes := (heap_shapes w)[other := Some nullptr] @ [Some p]\<rparr>" by simp
  from owned_move_ctor [OF o Some] w' have ow: "owned w'" by simp
  have "\<forall>b m. heap_model b w = Inr m \<and> b \<noteq> other \<longrightarrow> heap_model b w' = Inr m"
  proof (intro allI impI)
    fix b m
    assume b: "heap_model b w = Inr m \<and> b \<noteq> other"
    then have hm: "heap_model b w = Inr m" by simp
    show "heap_model b w' = Inr m"
    proof (rule heap_model_transfer [OF hm])
      fix q
      assume q: "obj_at (heap_shapes w) b = Some (Ptr q)"
      then have "b < length (heap_shapes w)" by (rule obj_at_Some_less)
      then show "obj_at (heap_shapes w') b = Some (Ptr q) \<and> obj_at (heap w') q = obj_at (heap w) q"
        using b q w' by simp
    qed
  qed
  with ow show ?thesis by simp
qed

lemma heap_move_assign_dead_source:
  "obj_at (heap_shapes w) other = None \<Longrightarrow> heap_move_assign this other w = Undefined dead_object"
  by (simp add: heap_move_assign_def heap_pimpl_None)

lemma heap_move_assign_dead_target:
  assumes "obj_at (heap_shapes w) other = Some p" and "obj_at (heap_shapes w) this = None"
  shows "heap_move_assign this other w = Undefined dead_object"
proof -
  from assms have "this \<noteq> other" by auto
  with assms show ?thesis
    by (simp add: heap_move_assign_def heap_pimpl_def Let_def)
qed

lemma heap_step_move_assign:
  assumes o: "owned w" and s: "world_after (heap_step (HMoveAssign this other) w) = Some w'"
  shows "owned w' \<and>
    (\<forall>b m. heap_model b w = Inr m \<and> b \<noteq> this \<and> b \<noteq> other \<longrightarrow> heap_model b w' = Inr m)"
proof (cases "obj_at (heap_shapes w) other")
  case None
  then have "heap_move_assign this other w = Undefined dead_object"
    by (rule heap_move_assign_dead_source)
  with s show ?thesis by simp
next
  case src: (Some p)
  show ?thesis
  proof (cases "obj_at (heap_shapes w) this")
    case None
    with src have "heap_move_assign this other w = Undefined dead_object"
      by (rule heap_move_assign_dead_target)
    with s show ?thesis by simp
  next
    case tgt: (Some old)
    show ?thesis
    proof (cases "this = other")
      case True
      with tgt have "heap_move_assign this other w = Returns () w"
        by (simp add: heap_move_assign_self)
      with s have "w' = w" by simp
      with o show ?thesis by simp
    next
      case False
      let ?w1 = "w\<lparr>heap_shapes := (heap_shapes w)[other := Some nullptr, this := Some p]\<rparr>"
      from heap_move_assign_live [OF src tgt False]
      have eq: "heap_move_assign this other w = delete_ptr old ?w1" .
      from src tgt have lt: "other < length (heap_shapes w)" "this < length (heap_shapes w)"
        by (auto dest: obj_at_Some_less)
      show ?thesis
      proof (cases old)
        case nullptr
        with eq s have w': "w' = ?w1" by (simp add: delete_ptr_null)
        from tgt nullptr have "obj_at (heap_shapes w) this = Some nullptr" by simp
        from owned_move_assign_null [OF o src this False] w' have ow: "owned w'" by simp
        have "\<forall>b m. heap_model b w = Inr m \<and> b \<noteq> this \<and> b \<noteq> other \<longrightarrow>
          heap_model b w' = Inr m"
        proof (intro allI impI)
          fix b m
          assume b: "heap_model b w = Inr m \<and> b \<noteq> this \<and> b \<noteq> other"
          then have hm: "heap_model b w = Inr m" by simp
          show "heap_model b w' = Inr m"
          proof (rule heap_model_transfer [OF hm])
            fix q
            assume q: "obj_at (heap_shapes w) b = Some (Ptr q)"
            then show "obj_at (heap_shapes w') b = Some (Ptr q) \<and>
              obj_at (heap w') q = obj_at (heap w) q"
              using b w' by simp
          qed
        qed
        with ow show ?thesis by simp
      next
        case (Ptr r)
        with tgt have t: "obj_at (heap_shapes w) this = Some (Ptr r)" by simp
        from owned_live [OF o t] obtain m0 where "obj_at (heap w) r = Some m0" by blast
        then have "obj_at (heap ?w1) r = Some m0" by simp
        from delete_ptr_live [OF this] eq Ptr s
        have w': "w' = w\<lparr>heap_shapes := (heap_shapes w)[other := Some nullptr, this := Some p],
                   heap := (heap w)[r := None], destructions := Suc (destructions w)\<rparr>"
          by simp
        from owned_move_assign_live [OF o src t False, where d = "Suc (destructions w)"] w'
        have ow: "owned w'" by simp
        have "\<forall>b m. heap_model b w = Inr m \<and> b \<noteq> this \<and> b \<noteq> other \<longrightarrow>
          heap_model b w' = Inr m"
        proof (intro allI impI)
          fix b m
          assume b: "heap_model b w = Inr m \<and> b \<noteq> this \<and> b \<noteq> other"
          then have hm: "heap_model b w = Inr m" by simp
          show "heap_model b w' = Inr m"
          proof (rule heap_model_transfer [OF hm])
            fix q
            assume q: "obj_at (heap_shapes w) b = Some (Ptr q)"
            have "q \<noteq> r"
            proof
              assume "q = r"
              with q have "obj_at (heap_shapes w) b = Some (Ptr r)" by simp
              from owned_unshared [OF o this t] b show False by simp
            qed
            then show "obj_at (heap_shapes w') b = Some (Ptr q) \<and>
              obj_at (heap w') q = obj_at (heap w) q"
              using b q w' by simp
          qed
        qed
        with ow show ?thesis by simp
      qed
    qed
  qed
qed

lemma heap_dtor_dead:
  "obj_at (heap_shapes w) this = None \<Longrightarrow> heap_dtor this w = Undefined dead_object"
  by (simp add: heap_dtor_def heap_pimpl_None)

lemma heap_step_destroy:
  assumes o: "owned w" and s: "world_after (heap_step (HDestroy this) w) = Some w'"
  shows "owned w' \<and>
    (\<forall>b m. heap_model b w = Inr m \<and> b \<noteq> this \<longrightarrow> heap_model b w' = Inr m)"
proof (cases "obj_at (heap_shapes w) this")
  case None
  then have "heap_dtor this w = Undefined dead_object" by (rule heap_dtor_dead)
  with s show ?thesis by simp
next
  case (Some old)
  show ?thesis
  proof (cases old)
    case nullptr
    with Some have "obj_at (heap_shapes w) this = Some nullptr" by simp
    from heap_dtor_null [OF this] s
    have w': "w' = w\<lparr>heap_shapes := (heap_shapes w)[this := None]\<rparr>" by simp
    from owned_dtor_null [OF o, of this] w' have ow: "owned w'" by simp
    have "\<forall>b m. heap_model b w = Inr m \<and> b \<noteq> this \<longrightarrow> heap_model b w' = Inr m"
    proof (intro allI impI)
      fix b m
      assume b: "heap_model b w = Inr m \<and> b \<noteq> this"
      then have hm: "heap_model b w = Inr m" by simp
      show "heap_model b w' = Inr m"
      proof (rule heap_model_transfer [OF hm])
        fix q
        assume q: "obj_at (heap_shapes w) b = Some (Ptr q)"
        then show "obj_at (heap_shapes w') b = Some (Ptr q) \<and>
          obj_at (heap w') q = obj_at (heap w) q"
          using b w' by simp
      qed
    qed
    with ow show ?thesis by simp
  next
    case (Ptr r)
    with Some have t: "obj_at (heap_shapes w) this = Some (Ptr r)" by simp
    from owned_live [OF o t] obtain m0 where "obj_at (heap w) r = Some m0" by blast
    from heap_dtor_live [OF t this] s
    have w': "w' = w\<lparr>heap_shapes := (heap_shapes w)[this := None],
                   heap := (heap w)[r := None], destructions := Suc (destructions w)\<rparr>"
      by simp
    from owned_dtor_live [OF o t, where d = "Suc (destructions w)"] w'
    have ow: "owned w'" by simp
    have "\<forall>b m. heap_model b w = Inr m \<and> b \<noteq> this \<longrightarrow> heap_model b w' = Inr m"
    proof (intro allI impI)
      fix b m
      assume b: "heap_model b w = Inr m \<and> b \<noteq> this"
      then have hm: "heap_model b w = Inr m" by simp
      show "heap_model b w' = Inr m"
      proof (rule heap_model_transfer [OF hm])
        fix q
        assume q: "obj_at (heap_shapes w) b = Some (Ptr q)"
        have "q \<noteq> r"
        proof
          assume "q = r"
          with q have "obj_at (heap_shapes w) b = Some (Ptr r)" by simp
          from owned_unshared [OF o this t] b show False by simp
        qed
        then show "obj_at (heap_shapes w') b = Some (Ptr q) \<and>
          obj_at (heap w') q = obj_at (heap w) q"
          using b q w' by simp
      qed
    qed
    with ow show ?thesis by simp
  qed
qed

lemma heap_step_invariant:
  assumes o: "owned w" and s: "world_after (heap_step op w) = Some w'"
  shows "owned w' \<and>
    (\<forall>b m. heap_model b w = Inr m \<and> b \<notin> set (heap_targets op) \<longrightarrow> heap_model b w' = Inr m)"
proof (cases op)
  case (HConstruct sh dr se)
  with heap_step_construct [OF o, of sh dr se w'] s show ?thesis by simp
next
  case (HCopy other)
  with heap_step_copy [OF o, of other w'] s show ?thesis by simp
next
  case (HAssign this other)
  with heap_step_assign [OF o, of this other w'] s show ?thesis by simp
next
  case (HMove other)
  with heap_step_move [OF o, of other w'] s show ?thesis by simp
next
  case (HMoveAssign this other)
  with heap_step_move_assign [OF o, of this other w'] s show ?thesis by simp
next
  case (HDestroy this)
  with heap_step_destroy [OF o, of this w'] s show ?thesis by simp
next
  case (HSerialize this)
  with s have "w' = w" by (auto split: sum.splits)
  with o show ?thesis by simp
next
  case (HDraw this)
  with s have "w' = w" by (auto split: sum.splits)
  with o show ?thesis by simp
qed

lemma heap_steps_invariant:
  "owned w \<Longrightarrow> heap_steps ops w = Some w' \<Longrightarrow>
   owned w' \<and>
   (\<forall>b m. heap_model b w = Inr m \<and> (\<forall>op \<in> set ops. b \<notin> set (heap_targets op)) \<longrightarrow>
      heap_model b w' = Inr m)"
proof (induction ops arbitrary: w)
  case Nil
  then show ?case by simp
next
  case (Cons op ops)
  from Cons.prems(2) obtain w1 where s: "world_after (heap_step op w) = Some w1"
    and r: "heap_steps ops w1 = Some w'"
    by (auto split: option.splits)
  from heap_step_invariant [OF Cons.prems(1) s]
  have o1: "owned w1"
    and f1: "\<forall>b m. heap_model b w = Inr m \<and> b \<notin> set (heap_targets op) \<longrightarrow> heap_model b w1 = Inr m"
    by simp_all
  from Cons.IH [OF o1 r]
  have o': "owned w'"
    and f': "\<forall>b m. heap_model b w1 = Inr m \<and> (\<forall>op \<in> set ops. b \<notin> set (heap_targets op)) \<longrightarrow>
      heap_model b w' = Inr m"
    by simp_all
  from f1 f' have "\<forall>b m. heap_model b w = Inr m \<and>
      (\<forall>op' \<in> set (op # ops). b \<notin> set (heap_targets op')) \<longrightarrow> heap_model b w' = Inr m"
    by simp
  with o' show ?case by simp
qed

lemma owned_init: "owned (init fs)"
  by (simp add: owned_def init_def)

subsection \<open>Copies are independent\<close>

lemma sbo_step_frame:
  assumes s: "world_after (sbo_step op w) = Some w'"
    and b: "obj_at (inline_shapes w) b = Some (Object m)"
    and t: "sbo_target op \<noteq> Some b"
  shows "obj_at (inline_shapes w') b = Some (Object m)"
proof -
  from b have lt: "b < length (inline_shapes w)" by (rule obj_at_Some_less)
  show ?thesis
  proof (cases op)
    case (Construct sh dr se M)
    show ?thesis
    proof (cases "fits M")
      case True
      then show ?thesis using s b lt Construct
        by (cases rule: sbo_Shape_cases [of M sh dr se w]) auto
    next
      case False
      from sbo_Shape_rejected [OF this, of sh dr se w] s Construct show ?thesis by auto
    qed
  next
    case (Copy other)
    show ?thesis
    proof (cases "\<exists>m0. obj_at (inline_shapes w) other = Some (Object m0)")
      case True
      then obtain m0 where "obj_at (inline_shapes w) other = Some (Object m0)" by blast
      then show ?thesis using s b lt Copy
        by (cases rule: sbo_copy_ctor_cases) auto
    next
      case False
      then have "sbo_copy_ctor other w = Undefined dead_object" by (simp add: sbo_copy_ctor_dead)
      with s Copy show ?thesis by simp
    qed
  next
    case (Assign this other)
    with t have ne: "b \<noteq> this" by auto
    show ?thesis
    proof (cases "\<exists>old. obj_at (inline_shapes w) this = Some (Object old)")
      case True
      then obtain old where old: "obj_at (inline_shapes w) this = Some (Object old)" by blast
      show ?thesis
      proof (cases "\<exists>m0. obj_at (inline_shapes w) other = Some (Object m0)")
        case True
        then obtain m0 where m0: "obj_at (inline_shapes w) other = Some (Object m0)" by blast
        show ?thesis
        proof (cases "this = other")
          case True
          with s Assign show ?thesis by (simp add: sbo_assign_self)
        next
          case False
          from old m0 False show ?thesis using s b ne Assign
            by (cases rule: sbo_assign_cases) auto
        qed
      next
        case False
        then have "\<forall>m. obj_at (inline_shapes w) other \<noteq> Some (Object m)" by simp
        from sbo_assign_dead_source [OF this, of this] s Assign show ?thesis by auto
      qed
    next
      case False
      then have "sbo_assign this other w = Undefined dead_object"
        by (simp add: sbo_assign_dead_target)
      with s Assign show ?thesis by simp
    qed
  next
    case (Destroy this)
    with t have ne: "b \<noteq> this" by auto
    show ?thesis
    proof (cases "\<exists>m0. obj_at (inline_shapes w) this = Some (Object m0)")
      case True
      then obtain m0 where "obj_at (inline_shapes w) this = Some (Object m0)" by blast
      from sbo_dtor_live [OF this] s b ne Destroy show ?thesis by auto
    next
      case False
      then have "sbo_dtor this w = Undefined dead_object" by (simp add: sbo_dtor_dead)
      with s Destroy show ?thesis by simp
    qed
  next
    case (Serialize this)
    with s b show ?thesis by (auto split: sum.splits)
  next
    case (Draw this)
    with s b show ?thesis by (auto split: sum.splits)
  qed
qed

lemma sbo_steps_frame:
  "sbo_steps ops w = Some w' \<Longrightarrow> obj_at (inline_shapes w) b = Some (Object m) \<Longrightarrow>
   \<forall>op \<in> set ops. sbo_target op \<noteq> Some b \<Longrightarrow>
   obj_at (inline_shapes w') b = Some (Object m)"
proof (induction ops arbitrary: w)
  case Nil
  then show ?case by simp
next
  case (Cons op ops)
  from Cons.prems(1) obtain w1 where s: "world_after (sbo_step op w) = Some w1"
    and r: "sbo_steps ops w1 = Some w'"
    by (auto split: option.splits)
  from Cons.prems(3) have t: "sbo_target op \<noteq> Some b"
    and ts: "\<forall>op \<in> set ops. sbo_target op \<noteq> Some b" by simp_all
  from sbo_step_frame [OF s Cons.prems(2) t] have "obj_at (inline_shapes w1) b = Some (Object m)" .
  from Cons.IH [OF r this ts] show ?case .
qed


lemma sbo_copy_independent:
  assumes "sbo_pimpl b1 w = Inr m" and "sbo_copy_ctor b1 w = Returns b2 w'"
  shows "b2 \<noteq> b1 \<and> sbo_pimpl b2 w' = Inr m \<and> sbo_pimpl b1 w' = Inr m"
proof -
  from assms(1) have m: "obj_at (inline_shapes w) b1 = Some (Object m)" by simp
  then have lt: "b1 < length (inline_shapes w)" by (rule obj_at_Some_less)
  from m show ?thesis using assms(2) m lt
    by (cases rule: sbo_copy_ctor_cases) auto
qed

lemma sbo_assign_independent:
  assumes "sbo_pimpl b1 w = Inr m" and "sbo_assign b2 b1 w = Returns u w'"
  shows "b2 \<noteq> b1 \<and> sbo_pimpl b2 w' = Inr m \<and> sbo_pimpl b1 w' = Inr m"
proof -
  from assms(1) have m: "obj_at (inline_shapes w) b1 = Some (Object m)" by simp
  have ne: "b2 \<noteq> b1"
  proof
    assume "b2 = b1"
    with assms(2) show False by (simp add: sbo_assign_self)
  qed
  have "\<exists>old. obj_at (inline_shapes w) b2 = Some (Object old)"
  proof (rule ccontr)
    assume "\<not> (\<exists>old. obj_at (inline_shapes w) b2 = Some (Object old))"
    then have "sbo_assign b2 b1 w = Undefined dead_object" by (simp add: sbo_assign_dead_target)
    with assms(2) show False by simp
  qed
  then obtain old where old: "obj_at (inline_shapes w) b2 = Some (Object old)" by blast
  then have lt: "b2 < length (inline_shapes w)" by (rule obj_at_Some_less)
  from old m ne have "sbo_pimpl b2 w' = Inr m \<and> sbo_pimpl b1 w' = Inr m"
    using assms(2) m lt ne by (cases rule: sbo_assign_cases) auto
  with ne show ?thesis by simp
qed

lemma heap_copy_independent:
  assumes "heap_model b1 w = Inr m" and "heap_copy_ctor b1 w = Returns b2 w'"
  shows "b2 \<noteq> b1 \<and> heap_model b2 w' = Inr m \<and> heap_model b1 w' = Inr m \<and>
    heap_pimpl b2 w' \<noteq> heap_pimpl b1 w'"
proof -
  from assms(1) obtain p where p: "obj_at (heap_shapes w) b1 = Some (Ptr p)" "obj_at (heap w) p = Some m"
    by (auto simp: heap_model_Inr)
  then have lt: "b1 < length (heap_shapes w)" "p < length (heap w)"
    by (auto dest: obj_at_Some_less)
  from assms(1) show ?thesis using assms(2) p lt
    by (cases rule: heap_copy_ctor_cases) (auto simp: heap_model_Inr heap_pimpl_def)
qed

lemma heap_assign_independent:
  assumes o: "owned w" and m: "heap_model b1 w = Inr m" and ne: "b2 \<noteq> b1"
    and r: "heap_assign b2 b1 w = Returns u w'"
  shows "heap_model b2 w' = Inr m \<and> heap_model b1 w' = Inr m \<and>
    heap_pimpl b2 w' \<noteq> heap_pimpl b1 w' \<and> owned w'"
proof -
  from r have s: "world_after (heap_step (HAssign b2 b1) w) = Some w'" by simp
  from heap_step_assign [OF o s] m ne have ow: "owned w'" and keep: "heap_model b1 w' = Inr m"
    by auto
  from m obtain p where p: "obj_at (heap_shapes w) b1 = Some (Ptr p)" "obj_at (heap w) p = Some m"
    by (auto simp: heap_model_Inr)
  then have lt: "b1 < length (heap_shapes w)" "p < length (heap w)"
    by (auto dest: obj_at_Some_less)
  have "\<exists>q. obj_at (heap_shapes w) b2 = Some q"
  proof (rule ccontr)
    assume "\<not> (\<exists>q. obj_at (heap_shapes w) b2 = Some q)"
    then have "obj_at (heap_shapes w) b2 = None" by simp
    then have "heap_assign b2 b1 w = Undefined dead_object" by (rule heap_assign_dead_target)
    with r show False by simp
  qed
  then obtain q where q: "obj_at (heap_shapes w) b2 = Some q" by blast
  then have lt2: "b2 < length (heap_shapes w)" by (rule obj_at_Some_less)
  have qq: "q = nullptr \<or> (\<exists>a old. q = Ptr a \<and> obj_at (heap w) a = Some old)"
  proof (cases q)
    case nullptr
    then show ?thesis by simp
  next
    case (Ptr a)
    with q owned_live [OF o] show ?thesis by blast
  qed
  from q m qq have "heap_model b2 w' = Inr m \<and> heap_pimpl b2 w' \<noteq> heap_pimpl b1 w'"
    using r p lt lt2 ne
    by (cases rule: heap_assign_cases) (auto simp: heap_model_Inr heap_pimpl_def)
  with ow keep show ?thesis by simp
qed

lemma sample_sbo_copy:
  "sbo_copy_ctor 0 (two_circles []) =
     Returns 2 ((two_circles [])
       \<lparr>inline_shapes := [Some (Object model_a), Some (Object model_b), Some (Object model_a)],
        constructions := 3\<rparr>)"
  by (simp add: sbo_copy_ctor_def Let_def sbo_pimpl_def sbo_clone_def Model_copy_ctor_def
      Model_ctor_def copy_ctor_def next_fault_def obj_at_def two_circles_def)

lemma sample_sbo_assign:
  "sbo_assign (Suc 0) 0 (two_circles []) =
     Returns () ((two_circles [])
       \<lparr>inline_shapes := [Some (Object model_a), Some (Object model_a)],
        constructions := 3, destructions := 1\<rparr>)"
  by (simp add: sbo_assign_def sbo_destroy_model_def sbo_pimpl_def sbo_clone_def
      Model_copy_ctor_def Model_ctor_def copy_ctor_def next_fault_def obj_at_def two_circles_def)

lemma sample_sbo_steps:
  "sbo_steps [Assign 0 (Suc 0), Destroy 0]
     ((two_circles [])
       \<lparr>inline_shapes := [Some (Object model_a), Some (Object model_b), Some (Object model_a)],
        constructions := 3\<rparr>) =
   Some ((two_circles [])
       \<lparr>inline_shapes := [None, Some (Object model_b), Some (Object model_a)],
        constructions := 4, destructions := 2\<rparr>)"
  by (simp add: sbo_assign_def sbo_destroy_model_def sbo_pimpl_def sbo_clone_def sbo_dtor_def
      Model_copy_ctor_def Model_ctor_def copy_ctor_def next_fault_def obj_at_def two_circles_def)

lemma sample_heap_copy:
  "heap_copy_ctor 0 (two_heap_circles []) =
     Returns 2 ((two_heap_circles [])
       \<lparr>heap_shapes := [Some (Ptr 0), Some (Ptr 1), Some (Ptr 2)],
        heap := [Some model_a, Some model_b, Some model_a], constructions := 3\<rparr>)"
  by (simp add: heap_copy_ctor_def heap_pimpl_def deref_def heap_clone_def make_unique_def
      Model_ctor_def copy_ctor_def next_fault_def obj_at_def two_heap_circles_def)

lemma sample_heap_assign:
  "heap_assign (Suc 0) 0 (two_heap_circles []) =
     Returns () ((two_heap_circles [])
       \<lparr>heap_shapes := [Some (Ptr 0), Some (Ptr 2), None],
        heap := [Some model_a, None, Some model_a], constructions := 3, destructions := 1\<rparr>)"
  by (simp add: heap_assign_def heap_copy_ctor_def heap_pimpl_def deref_def heap_clone_def
      make_unique_def Model_ctor_def copy_ctor_def next_fault_def swap_pimpl_def heap_dtor_def
      delete_ptr_def obj_at_def two_heap_circles_def)

lemma sample_heap_steps:
  "heap_steps [HAssign 0 (Suc 0), HDestroy 0]
     ((two_heap_circles [])
       \<lparr>heap_shapes := [Some (Ptr 0), Some (Ptr 1), Some (Ptr 2)],
        heap := [Some model_a, Some model_b, Some model_a], constructions := 3\<rparr>) =
   Some ((two_heap_circles [])
       \<lparr>heap_shapes := [None, Some (Ptr 1), Some (Ptr 2), None],
        heap := [None, Some model_b, Some model_a, None],
        constructions := 4, destructions := 2\<rparr>)"
  by (simp add: heap_assign_def heap_copy_ctor_def heap_pimpl_def deref_def heap_clone_def
      make_unique_def Model_ctor_def copy_ctor_def next_fault_def swap_pimpl_def heap_dtor_def
      delete_ptr_def obj_at_def two_heap_circles_def)

lemma owned_two_heap_circles: "owned (two_heap_circles fs)"
  by (simp add: owned_def two_heap_circles_def obj_at_def)

lemma sbo_mutate_frame:
  assumes "sbo_pimpl b w = Inr m" and "a \<noteq> b"
  shows "sbo_pimpl b (sbo_mutate a m' w) = Inr m"
  using assms by (simp add: sbo_mutate_def split: sum.splits)

lemma heap_mutate_shapes [simp]: "heap_shapes (heap_mutate a m' w) = heap_shapes w"
  by (simp add: heap_mutate_def split: sum.splits unique_ptr.splits option.splits)

lemma heap_mutate_heap:
  "obj_at (heap (heap_mutate a m' w)) p =
     (if heap_pimpl a w = Inr (Ptr p) \<and> obj_at (heap w) p \<noteq> None then Some m'
      else obj_at (heap w) p)"
  by (auto simp: heap_mutate_def dest: obj_at_Some_less
      split: sum.splits unique_ptr.splits option.splits)

lemma heap_pimpl_Ptr:
  "heap_pimpl a w = Inr q \<Longrightarrow> obj_at (heap_shapes w) a = Some q"
  by (auto simp: heap_pimpl_def split: option.splits)

lemma owned_heap_mutate:
  assumes o: "owned w"
  shows "owned (heap_mutate a m' w)"
proof (rule ownedI)
  fix c d p
  assume "obj_at (heap_shapes (heap_mutate a m' w)) c = Some (Ptr p)"
    and "obj_at (heap_shapes (heap_mutate a m' w)) d = Some (Ptr p)"
  then have "obj_at (heap_shapes w) c = Some (Ptr p)" and "obj_at (heap_shapes w) d = Some (Ptr p)"
    by simp_all
  from owned_unshared [OF o this] show "c = d" .
next
  fix c p
  assume "obj_at (heap_shapes (heap_mutate a m' w)) c = Some (Ptr p)"
  then have "obj_at (heap_shapes w) c = Some (Ptr p)" by simp
  from owned_live [OF o this] obtain m where "obj_at (heap w) p = Some m" by blast
  then show "\<exists>m. obj_at (heap (heap_mutate a m' w)) p = Some m"
    by (simp add: heap_mutate_heap)
qed

lemma heap_mutate_frame:
  assumes o: "owned w" and m: "heap_model b w = Inr m" and ne: "a \<noteq> b"
  shows "heap_model b (heap_mutate a m' w) = Inr m"
proof -
  from m obtain p where p: "obj_at (heap_shapes w) b = Some (Ptr p)"
    and q: "obj_at (heap w) p = Some m"
    unfolding heap_model_Inr by blast
  have "heap_pimpl a w \<noteq> Inr (Ptr p)"
  proof
    assume "heap_pimpl a w = Inr (Ptr p)"
    then have "obj_at (heap_shapes w) a = Some (Ptr p)" by (rule heap_pimpl_Ptr)
    from owned_unshared [OF o this p] ne show False by simp
  qed
  then have "obj_at (heap (heap_mutate a m' w)) p = Some m"
    using q by (simp add: heap_mutate_heap)
  with p show ?thesis unfolding heap_model_Inr by simp
qed

lemma counted_pair_run: "sbo_steps make_counted_pair (init []) = Some counted_pair"
  by (simp add: make_counted_pair_def counted_pair_def counted_def init_def sbo_Shape_def
      Let_def fits_def small_layout_def buffersize_def alignment_def
      sbo_copy_ctor_def sbo_pimpl_def sbo_clone_def Model_copy_ctor_def
      Model_ctor_def copy_ctor_def next_fault_def obj_at_def)

lemma counted_heap_pair_run:
  "heap_steps make_counted_heap_pair (init []) = Some counted_heap_pair"
  by (simp add: make_counted_heap_pair_def counted_heap_pair_def counted_def init_def
      heap_Shape_def make_unique_def Model_ctor_def
      copy_ctor_def next_fault_def heap_copy_ctor_def heap_pimpl_def deref_def
      heap_clone_def obj_at_def)

lemma counted_draws:
  "sbo_free_draw 0 counted_pair = Inr (CountingDrawer 0 (Circle 2.3))"
  "sbo_free_draw (Suc 0) counted_pair = Inr (CountingDrawer 0 (Circle 2.3))"
  "heap_free_draw 0 counted_heap_pair = Inr (CountingDrawer 0 (Circle 2.3))"
  "heap_free_draw (Suc 0) counted_heap_pair = Inr (CountingDrawer 0 (Circle 2.3))"
  by (simp_all add: sbo_free_draw_def heap_free_draw_def sbo_pimpl_def heap_pimpl_def deref_def
      do_draw_def counted_pair_def counted_heap_pair_def counted_def obj_at_def)

text \<open>
  A circle is built with a draw strategy that counts in an \<open>int\<close> of the program, and is
  copied. Where that \<open>int\<close> is 0, drawing the copy prints 1. Drawing the original leaves 1
  in it, and drawing the copy then prints 2: what the copy draws has been changed through
  the original, in both variants, although the two shapes of the heap variant own
  different blocks.
\<close>

theorem a_pointer_in_a_strategy_is_shared:
  "sbo_steps make_counted_pair (init []) = Some counted_pair \<and>
   map_option fst (perform (sbo_free_draw (Suc 0) counted_pair) [0]) =
     Some [Text ''circle '', Number 1, Endl] \<and>
   map_option snd (perform (sbo_free_draw 0 counted_pair) [0]) = Some [1] \<and>
   map_option fst (perform (sbo_free_draw (Suc 0) counted_pair) [1]) =
     Some [Text ''circle '', Number 2, Endl] \<and>
   heap_steps make_counted_heap_pair (init []) = Some counted_heap_pair \<and>
   heap_pimpl (Suc 0) counted_heap_pair \<noteq> heap_pimpl 0 counted_heap_pair \<and>
   map_option fst (perform (heap_free_draw (Suc 0) counted_heap_pair) [0]) =
     Some [Text ''circle '', Number 1, Endl] \<and>
   map_option snd (perform (heap_free_draw 0 counted_heap_pair) [0]) = Some [1] \<and>
   map_option fst (perform (heap_free_draw (Suc 0) counted_heap_pair) [1]) =
     Some [Text ''circle '', Number 2, Endl]"
  by (simp add: counted_pair_run counted_heap_pair_run counted_draws perform_def
      CountingDrawer_def)
   (simp add: heap_pimpl_def counted_heap_pair_def obj_at_def)

text \<open>
  C5, as the code has it. A copy made by the copy constructor or by the copy assignment of
  either variant is a box other than its source that holds the same model (the shape and
  both strategies, each copied by its own copy constructor) as the source, which still
  holds it, and \<open>serialize()\<close> and \<open>free_draw\<close> on it give what they gave on the source;
  in the heap variant the two boxes own different blocks (for the assignment: in a world
  with exclusive ownership, between two distinct boxes). A box that holds a model keeps
  that model, and so its \<open>serialize()\<close> and \<open>free_draw\<close> results, through every run of
  operations of which none has it as the target of an assignment, as the object of a
  destructor call or (heap variant) as the source of a move, and through every change in
  place of the model that another box holds: whatever is done to the other boxes, its
  source or its copies among them, does not reach it. In the heap variant this rests on
  exclusive ownership, which holds in every world that a run reaches from the empty world
  and is kept by a change in place. What a strategy reaches through a pointer is no part
  of the model: there the result of \<open>free_draw\<close> is a function of the state outside the
  boxes, and it is the same function for a box and its copy.
\<close>

theorem copy_independence:
  "(sbo_pimpl s1 w = Inr m \<and> sbo_copy_ctor s1 w = Returns s2 w' \<longrightarrow>
      s2 \<noteq> s1 \<and> sbo_pimpl s2 w' = Inr m \<and> sbo_pimpl s1 w' = Inr m \<and>
      sbo_serialize s2 w' = sbo_serialize s1 w \<and> sbo_free_draw s2 w' = sbo_free_draw s1 w) \<and>
   (sbo_pimpl s3 wa = Inr ma \<and> sbo_assign s4 s3 wa = Returns () wa' \<longrightarrow>
      s4 \<noteq> s3 \<and> sbo_pimpl s4 wa' = Inr ma \<and> sbo_pimpl s3 wa' = Inr ma \<and>
      sbo_serialize s4 wa' = sbo_serialize s3 wa \<and> sbo_free_draw s4 wa' = sbo_free_draw s3 wa) \<and>
   (sbo_pimpl s5 wk = Inr mk \<and> sbo_steps ops wk = Some wk' \<and>
    (\<forall>op \<in> set ops. sbo_target op \<noteq> Some s5) \<longrightarrow>
      sbo_pimpl s5 wk' = Inr mk \<and> sbo_serialize s5 wk' = sbo_serialize s5 wk \<and>
      sbo_free_draw s5 wk' = sbo_free_draw s5 wk) \<and>
   (sbo_pimpl s6 wm = Inr mm \<and> s7 \<noteq> s6 \<longrightarrow>
      sbo_pimpl s6 (sbo_mutate s7 mx wm) = Inr mm \<and>
      sbo_serialize s6 (sbo_mutate s7 mx wm) = sbo_serialize s6 wm \<and>
      sbo_free_draw s6 (sbo_mutate s7 mx wm) = sbo_free_draw s6 wm) \<and>
   (heap_model h1 v = Inr n \<and> heap_copy_ctor h1 v = Returns h2 v' \<longrightarrow>
      h2 \<noteq> h1 \<and> heap_model h2 v' = Inr n \<and> heap_model h1 v' = Inr n \<and>
      heap_pimpl h2 v' \<noteq> heap_pimpl h1 v' \<and>
      heap_serialize h2 v' = heap_serialize h1 v \<and> heap_free_draw h2 v' = heap_free_draw h1 v) \<and>
   (owned va \<and> heap_model h3 va = Inr na \<and> h4 \<noteq> h3 \<and> heap_assign h4 h3 va = Returns () va' \<longrightarrow>
      heap_model h4 va' = Inr na \<and> heap_model h3 va' = Inr na \<and>
      heap_pimpl h4 va' \<noteq> heap_pimpl h3 va' \<and>
      heap_serialize h4 va' = heap_serialize h3 va \<and>
      heap_free_draw h4 va' = heap_free_draw h3 va) \<and>
   (owned vk \<and> heap_model h5 vk = Inr nk \<and> heap_steps hops vk = Some vk' \<and>
    (\<forall>op \<in> set hops. h5 \<notin> set (heap_targets op)) \<longrightarrow>
      heap_model h5 vk' = Inr nk \<and> heap_serialize h5 vk' = heap_serialize h5 vk \<and>
      heap_free_draw h5 vk' = heap_free_draw h5 vk) \<and>
   (owned vm \<and> heap_model h6 vm = Inr nm \<and> h7 \<noteq> h6 \<longrightarrow>
      heap_model h6 (heap_mutate h7 nx vm) = Inr nm \<and>
      heap_serialize h6 (heap_mutate h7 nx vm) = heap_serialize h6 vm \<and>
      heap_free_draw h6 (heap_mutate h7 nx vm) = heap_free_draw h6 vm \<and>
      owned (heap_mutate h7 nx vm)) \<and>
   (heap_steps rops (init fs) = Some vr \<longrightarrow> owned vr)"
proof (intro conjI impI)
  assume a: "sbo_pimpl s1 w = Inr m \<and> sbo_copy_ctor s1 w = Returns s2 w'"
  then have a1: "sbo_pimpl s1 w = Inr m" and a2: "sbo_copy_ctor s1 w = Returns s2 w'"
    by blast+
  from sbo_copy_independent [OF a1 a2]
  have k: "sbo_pimpl s2 w' = Inr m" and "s2 \<noteq> s1" and "sbo_pimpl s1 w' = Inr m" by simp_all
  then show "s2 \<noteq> s1" and "sbo_pimpl s2 w' = Inr m" and "sbo_pimpl s1 w' = Inr m" by simp_all
  from sbo_observe [OF k] sbo_observe [OF a1]
  show "sbo_serialize s2 w' = sbo_serialize s1 w" and "sbo_free_draw s2 w' = sbo_free_draw s1 w"
    by simp_all
next
  assume a: "sbo_pimpl s3 wa = Inr ma \<and> sbo_assign s4 s3 wa = Returns () wa'"
  then have a1: "sbo_pimpl s3 wa = Inr ma" and a2: "sbo_assign s4 s3 wa = Returns () wa'"
    by blast+
  from sbo_assign_independent [OF a1 a2]
  have k: "sbo_pimpl s4 wa' = Inr ma" and "s4 \<noteq> s3" and "sbo_pimpl s3 wa' = Inr ma"
    by simp_all
  then show "s4 \<noteq> s3" and "sbo_pimpl s4 wa' = Inr ma" and "sbo_pimpl s3 wa' = Inr ma"
    by simp_all
  from sbo_observe [OF k] sbo_observe [OF a1]
  show "sbo_serialize s4 wa' = sbo_serialize s3 wa"
    and "sbo_free_draw s4 wa' = sbo_free_draw s3 wa"
    by simp_all
next
  assume a: "sbo_pimpl s5 wk = Inr mk \<and> sbo_steps ops wk = Some wk' \<and>
    (\<forall>op \<in> set ops. sbo_target op \<noteq> Some s5)"
  then have b: "obj_at (inline_shapes wk) s5 = Some (Object mk)" by simp
  from a have "sbo_steps ops wk = Some wk'" and "\<forall>op \<in> set ops. sbo_target op \<noteq> Some s5"
    by simp_all
  from sbo_steps_frame [OF this(1) b this(2)]
  have k: "sbo_pimpl s5 wk' = Inr mk" by simp
  from a have k0: "sbo_pimpl s5 wk = Inr mk" by simp
  from k show "sbo_pimpl s5 wk' = Inr mk" .
  from sbo_observe [OF k] sbo_observe [OF k0]
  show "sbo_serialize s5 wk' = sbo_serialize s5 wk" and "sbo_free_draw s5 wk' = sbo_free_draw s5 wk"
    by simp_all
next
  assume a: "sbo_pimpl s6 wm = Inr mm \<and> s7 \<noteq> s6"
  then have k0: "sbo_pimpl s6 wm = Inr mm" and ne: "s7 \<noteq> s6" by blast+
  from sbo_mutate_frame [OF k0 ne]
  have k: "sbo_pimpl s6 (sbo_mutate s7 mx wm) = Inr mm" .
  from k show "sbo_pimpl s6 (sbo_mutate s7 mx wm) = Inr mm" .
  from sbo_observe [OF k] sbo_observe [OF k0]
  show "sbo_serialize s6 (sbo_mutate s7 mx wm) = sbo_serialize s6 wm"
    and "sbo_free_draw s6 (sbo_mutate s7 mx wm) = sbo_free_draw s6 wm"
    by simp_all
next
  assume a: "heap_model h1 v = Inr n \<and> heap_copy_ctor h1 v = Returns h2 v'"
  then have a1: "heap_model h1 v = Inr n" and a2: "heap_copy_ctor h1 v = Returns h2 v'"
    by blast+
  from heap_copy_independent [OF a1 a2]
  have k: "heap_model h2 v' = Inr n" and r: "h2 \<noteq> h1" "heap_model h1 v' = Inr n"
    "heap_pimpl h2 v' \<noteq> heap_pimpl h1 v'" by simp_all
  from k r show "h2 \<noteq> h1" and "heap_model h2 v' = Inr n" and "heap_model h1 v' = Inr n"
    and "heap_pimpl h2 v' \<noteq> heap_pimpl h1 v'" by simp_all
  from heap_observe [OF k] heap_observe [OF a1]
  show "heap_serialize h2 v' = heap_serialize h1 v"
    and "heap_free_draw h2 v' = heap_free_draw h1 v"
    by simp_all
next
  assume a: "owned va \<and> heap_model h3 va = Inr na \<and> h4 \<noteq> h3 \<and>
    heap_assign h4 h3 va = Returns () va'"
  then have a1: "owned va" and a2: "heap_model h3 va = Inr na" and a3: "h4 \<noteq> h3"
    and a4: "heap_assign h4 h3 va = Returns () va'"
    by blast+
  from heap_assign_independent [OF a1 a2 a3 a4]
  have k: "heap_model h4 va' = Inr na" and r: "heap_model h3 va' = Inr na"
    "heap_pimpl h4 va' \<noteq> heap_pimpl h3 va'" by simp_all
  from k r show "heap_model h4 va' = Inr na" and "heap_model h3 va' = Inr na"
    and "heap_pimpl h4 va' \<noteq> heap_pimpl h3 va'" by simp_all
  from heap_observe [OF k] heap_observe [OF a2]
  show "heap_serialize h4 va' = heap_serialize h3 va"
    and "heap_free_draw h4 va' = heap_free_draw h3 va"
    by simp_all
next
  assume a: "owned vk \<and> heap_model h5 vk = Inr nk \<and> heap_steps hops vk = Some vk' \<and>
    (\<forall>op \<in> set hops. h5 \<notin> set (heap_targets op))"
  then have "owned vk" and "heap_steps hops vk = Some vk'" by simp_all
  from heap_steps_invariant [OF this] a have k: "heap_model h5 vk' = Inr nk" by blast
  from a have k0: "heap_model h5 vk = Inr nk" by simp
  from k show "heap_model h5 vk' = Inr nk" .
  from heap_observe [OF k] heap_observe [OF k0]
  show "heap_serialize h5 vk' = heap_serialize h5 vk"
    and "heap_free_draw h5 vk' = heap_free_draw h5 vk"
    by simp_all
next
  assume a: "owned vm \<and> heap_model h6 vm = Inr nm \<and> h7 \<noteq> h6"
  then have o: "owned vm" and k0: "heap_model h6 vm = Inr nm" and ne: "h7 \<noteq> h6" by blast+
  from heap_mutate_frame [OF o k0 ne]
  have k: "heap_model h6 (heap_mutate h7 nx vm) = Inr nm" .
  from k show "heap_model h6 (heap_mutate h7 nx vm) = Inr nm" .
  from heap_observe [OF k] heap_observe [OF k0]
  show "heap_serialize h6 (heap_mutate h7 nx vm) = heap_serialize h6 vm"
    and "heap_free_draw h6 (heap_mutate h7 nx vm) = heap_free_draw h6 vm"
    by simp_all
  from o show "owned (heap_mutate h7 nx vm)" by (rule owned_heap_mutate)
next
  assume "heap_steps rops (init fs) = Some vr"
  from heap_steps_invariant [OF owned_init this] show "owned vr" by simp
qed

theorem copy_independence_witness:
  "sbo_pimpl 0 (two_circles []) = Inr model_a \<and>
   (\<exists>w'. sbo_copy_ctor 0 (two_circles []) = Returns 2 w' \<and>
      sbo_pimpl 2 w' = Inr model_a \<and> sbo_pimpl 0 w' = Inr model_a \<and>
      sbo_free_draw 2 w' = sbo_free_draw 0 (two_circles []) \<and>
      sbo_pimpl 0 (sbo_mutate 0 model_b w') = Inr model_b \<and>
      sbo_pimpl 2 (sbo_mutate 0 model_b w') = Inr model_a \<and>
      sbo_free_draw 2 (sbo_mutate 0 model_b w') = sbo_free_draw 2 w' \<and>
      (\<exists>w''. sbo_steps [Assign 0 (Suc 0), Destroy 0] w' = Some w'' \<and>
         sbo_serialize 2 w'' = sbo_serialize 2 w' \<and>
         sbo_free_draw 2 w'' = sbo_free_draw 2 w')) \<and>
   (\<exists>w'. sbo_assign (Suc 0) 0 (two_circles []) = Returns () w' \<and>
      sbo_pimpl (Suc 0) w' = Inr model_a \<and> sbo_pimpl 0 w' = Inr model_a \<and>
      sbo_free_draw (Suc 0) w' = sbo_free_draw 0 (two_circles [])) \<and>
   owned (two_heap_circles []) \<and>
   heap_model 0 (two_heap_circles []) = Inr model_a \<and>
   (\<exists>v'. heap_copy_ctor 0 (two_heap_circles []) = Returns 2 v' \<and>
      heap_model 2 v' = Inr model_a \<and> heap_model 0 v' = Inr model_a \<and>
      heap_pimpl 2 v' \<noteq> heap_pimpl 0 v' \<and> owned v' \<and>
      heap_free_draw 2 v' = heap_free_draw 0 (two_heap_circles []) \<and>
      heap_model 0 (heap_mutate 0 model_b v') = Inr model_b \<and>
      heap_model 2 (heap_mutate 0 model_b v') = Inr model_a \<and>
      heap_free_draw 2 (heap_mutate 0 model_b v') = heap_free_draw 2 v' \<and>
      owned (heap_mutate 0 model_b v') \<and>
      (\<exists>v''. heap_steps [HAssign 0 (Suc 0), HDestroy 0] v' = Some v'' \<and>
         heap_serialize 2 v'' = heap_serialize 2 v' \<and>
         heap_free_draw 2 v'' = heap_free_draw 2 v')) \<and>
   (\<exists>v'. heap_assign (Suc 0) 0 (two_heap_circles []) = Returns () v' \<and>
      heap_model (Suc 0) v' = Inr model_a \<and> heap_model 0 v' = Inr model_a \<and>
      heap_pimpl (Suc 0) v' \<noteq> heap_pimpl 0 v' \<and>
      heap_free_draw (Suc 0) v' = heap_free_draw 0 (two_heap_circles []))"
proof -
  let ?w = "two_circles []"
  let ?w2 = "(two_circles [])
       \<lparr>inline_shapes := [Some (Object model_a), Some (Object model_b), Some (Object model_a)],
        constructions := 3\<rparr>"
  let ?w3 = "(two_circles [])
       \<lparr>inline_shapes := [None, Some (Object model_b), Some (Object model_a)],
        constructions := 4, destructions := 2\<rparr>"
  let ?wa = "(two_circles [])
       \<lparr>inline_shapes := [Some (Object model_a), Some (Object model_a)],
        constructions := 3, destructions := 1\<rparr>"
  let ?v = "two_heap_circles []"
  let ?v2 = "(two_heap_circles [])
       \<lparr>heap_shapes := [Some (Ptr 0), Some (Ptr 1), Some (Ptr 2)],
        heap := [Some model_a, Some model_b, Some model_a], constructions := 3\<rparr>"
  let ?v3 = "(two_heap_circles [])
       \<lparr>heap_shapes := [None, Some (Ptr 1), Some (Ptr 2), None],
        heap := [None, Some model_b, Some model_a, None],
        constructions := 4, destructions := 2\<rparr>"
  let ?va = "(two_heap_circles [])
       \<lparr>heap_shapes := [Some (Ptr 0), Some (Ptr 2), None],
        heap := [Some model_a, None, Some model_a], constructions := 3, destructions := 1\<rparr>"
  let ?ops = "[Assign 0 (Suc 0), Destroy 0] :: (Circle_rep, item list) sbo_op list"
  let ?hops = "[HAssign 0 (Suc 0), HDestroy 0] :: (Circle_rep, item list) heap_op list"
  note inst = copy_independence [where ?s1.0 = 0 and w = ?w and m = model_a and ?s2.0 = 2 and w' = ?w2
      and ?s3.0 = 0 and wa = ?w and ma = model_a and ?s4.0 = "Suc 0" and wa' = ?wa
      and ?s5.0 = 2 and wk = ?w2 and mk = model_a and ops = ?ops and wk' = ?w3
      and ?s6.0 = 2 and wm = ?w2 and mm = model_a and ?s7.0 = 0 and mx = model_b
      and ?h1.0 = 0 and v = ?v and n = model_a and ?h2.0 = 2 and v' = ?v2
      and ?h3.0 = 0 and va = ?v and na = model_a and ?h4.0 = "Suc 0" and va' = ?va
      and ?h5.0 = 2 and vk = ?v2 and nk = model_a and hops = ?hops and vk' = ?v3
      and ?h6.0 = 2 and vm = ?v2 and nm = model_a and ?h7.0 = 0 and nx = model_b
      and rops = "make_two_heap_circles @ [HCopy 0]" and fs = "[]" and vr = ?v2]
  have p0: "sbo_pimpl 0 ?w = Inr model_a" by simp
  have p2: "sbo_pimpl 2 ?w2 = Inr model_a" by (simp add: obj_at_def)
  have t: "\<forall>op \<in> set ?ops. sbo_target op \<noteq> Some 2" by simp
  have q0: "heap_model 0 ?v = Inr model_a" by simp
  have q2: "heap_model 2 ?v2 = Inr model_a"
    by (simp add: heap_model_def heap_pimpl_def deref_def obj_at_def)
  have ht: "\<forall>op \<in> set ?hops. 2 \<notin> set (heap_targets op)" by simp
  have ne: "Suc 0 \<noteq> (0::nat)" by simp
  have ne2: "(0::nat) \<noteq> 2" by simp
  have reach: "heap_steps (make_two_heap_circles @ [HCopy 0]) (init []) = Some ?v2"
    by (simp add: make_two_heap_circles_def heap_Shape_def make_unique_def Model_ctor_def
      copy_ctor_def next_fault_def init_def heap_copy_ctor_def heap_pimpl_def deref_def
      heap_clone_def obj_at_def two_heap_circles_def model_a_def model_b_def)
  have mu: "sbo_pimpl 0 (sbo_mutate 0 model_b ?w2) = Inr model_b"
    by (simp add: sbo_mutate_def sbo_pimpl_def obj_at_def two_circles_def)
  have hmu: "heap_model 0 (heap_mutate 0 model_b ?v2) = Inr model_b"
    by (simp add: heap_mutate_def heap_model_def heap_pimpl_def deref_def obj_at_def
        two_heap_circles_def)
  from inst reach have o2: "owned ?v2" by blast
  from inst p0 sample_sbo_copy
  have c1: "sbo_pimpl 2 ?w2 = Inr model_a \<and> sbo_pimpl 0 ?w2 = Inr model_a \<and>
    sbo_free_draw 2 ?w2 = sbo_free_draw 0 ?w" by blast
  from inst p2 sample_sbo_steps t
  have c2: "sbo_serialize 2 ?w3 = sbo_serialize 2 ?w2 \<and> sbo_free_draw 2 ?w3 = sbo_free_draw 2 ?w2"
    by blast
  from inst p0 sample_sbo_assign
  have c3: "sbo_pimpl (Suc 0) ?wa = Inr model_a \<and> sbo_pimpl 0 ?wa = Inr model_a \<and>
    sbo_free_draw (Suc 0) ?wa = sbo_free_draw 0 ?w" by blast
  from inst p2 ne2
  have c7: "sbo_pimpl 2 (sbo_mutate 0 model_b ?w2) = Inr model_a \<and>
    sbo_free_draw 2 (sbo_mutate 0 model_b ?w2) = sbo_free_draw 2 ?w2" by blast
  from inst q0 sample_heap_copy
  have c4: "heap_model 2 ?v2 = Inr model_a \<and> heap_model 0 ?v2 = Inr model_a \<and>
    heap_pimpl 2 ?v2 \<noteq> heap_pimpl 0 ?v2 \<and> heap_free_draw 2 ?v2 = heap_free_draw 0 ?v" by blast
  from inst o2 q2 sample_heap_steps ht
  have c5: "heap_serialize 2 ?v3 = heap_serialize 2 ?v2 \<and>
    heap_free_draw 2 ?v3 = heap_free_draw 2 ?v2" by blast
  from inst owned_two_heap_circles [of "[]"] q0 ne sample_heap_assign
  have c6: "heap_model (Suc 0) ?va = Inr model_a \<and> heap_model 0 ?va = Inr model_a \<and>
    heap_pimpl (Suc 0) ?va \<noteq> heap_pimpl 0 ?va \<and>
    heap_free_draw (Suc 0) ?va = heap_free_draw 0 ?v" by blast
  from inst o2 q2 ne2
  have c8: "heap_model 2 (heap_mutate 0 model_b ?v2) = Inr model_a \<and>
    heap_free_draw 2 (heap_mutate 0 model_b ?v2) = heap_free_draw 2 ?v2 \<and>
    owned (heap_mutate 0 model_b ?v2)" by blast
  from p0 sample_sbo_copy c1 mu c7 sample_sbo_steps c2 sample_sbo_assign c3
    owned_two_heap_circles [of "[]"] q0 sample_heap_copy c4 o2 hmu c8 sample_heap_steps c5
    sample_heap_assign c6
  show ?thesis by blast
qed

end
